theory Spec2Isabelle
  imports Main "HOL-Library.Multiset"
begin

section \<open>Data model\<close>

text \<open>
  The filters manager and the filters update service work on filter and group objects
  held by the cache module (the registry), on the state kept by the filters-state module
  (the persisted store), on the key-value storage, and they talk to the outside through
  the notifier and the service client. A JavaScript value that may be \<open>undefined\<close> is an
  option; the boolean flags of a filter are only ever tested for truthiness in the code
  modelled here, so they are booleans (\<open>undefined\<close> reads as \<open>False\<close>).
\<close>

record filter_rec =
  filterId :: int
  groupId :: int
  version :: "string option"
  timeUpdated :: "int option"
  customUrl :: "string option"
  enabled :: bool
  installed :: bool
  loaded :: bool
  lastCheckTime :: "int option"
  lastUpdateTime :: "int option"
  isDownloading :: bool

text \<open>A group's \<open>enabled\<close> has three states: undefined (never touched), true, false.\<close>

record group_rec =
  g_groupId :: int
  g_enabled :: "bool option"

text \<open>The entries of \<open>filtersState.getFiltersVersion()\<close>, \<open>getFiltersState()\<close>, \<open>getGroupState()\<close>.\<close>

record version_info =
  vi_version :: "string option"
  vi_lastCheckTime :: "int option"
  vi_lastUpdateTime :: "int option"

record state_info =
  si_enabled :: bool
  si_installed :: bool
  si_loaded :: bool

record group_state_info =
  gs_enabled :: "bool option"

text \<open>The payload of the \<open>UPDATE_FILTERS_SHOW_POPUP\<close> notification.\<close>

record popup =
  success :: bool
  updatedFilters :: "filter_rec option list option"
  forceUpdate :: bool
  filtersUpdateLastCheck :: int

datatype event =
    FILTER_GROUP_ENABLE_DISABLE group_rec
  | FILTER_ENABLE_DISABLE filter_rec
  | FILTER_ADD_REMOVE "filter_rec option"
  | START_DOWNLOAD_FILTER filter_rec
  | SUCCESS_DOWNLOAD_FILTER filter_rec
  | ERROR_DOWNLOAD_FILTER filter_rec
  | UPDATE_FILTER_RULES filter_rec "string list"
  | UPDATE_FILTERS_SHOW_POPUP popup

text \<open>
  Everything the two modules do to the outside, in the order they do it: a notification
  (with the payload as the listener sees it at that moment), a write to the storage, and
  the three kinds of request that go to the network.
\<close>

datatype effect =
    Notify event
  | StorageSetItem string int
  | LoadFiltersMetadata "int list"
  | LoadFilterRules int bool
  | UpdateCustomFilter "filter_rec option"

record state =
  cache_filters :: "filter_rec list"
  cache_groups :: "group_rec list"
  filtersVersionInfo :: "int \<rightharpoonup> version_info"
  filtersStateInfo :: "int \<rightharpoonup> state_info"
  groupsStateInfo :: "int \<rightharpoonup> group_state_info"
  customFilterStore :: "filter_rec list"
  updateFiltersPeriod :: int
  storage :: "string \<rightharpoonup> int"
  trace :: "effect list"

text \<open>
  What the outside answers. \<open>dateNow\<close> is the clock read at the start of an operation;
  a rules download that succeeds comes with the time at which its response arrived.
  Requests that are under way together are answered in an order of the outside's choosing:
  \<open>rulesResponseOrder\<close> and \<open>customResponseOrder\<close> give, for the requests in the order
  they were issued, the order in which their responses arrive. \<open>isGreaterVersion\<close>
  (utils/version) and the two configured identifiers are not part of the sources at hand
  and are parameters.
\<close>

datatype rules_response = RulesLoaded "string list" int | RulesFailed

record env =
  dateNow :: int
  loadFilterRulesResponse :: "int \<Rightarrow> bool \<Rightarrow> rules_response"
  loadFiltersMetadataResponse :: "int list \<Rightarrow> filter_rec list option"
  updateCustomFilterResponse :: "filter_rec option \<Rightarrow> int option"
  rulesResponseOrder :: "filter_rec list \<Rightarrow> filter_rec list"
  customResponseOrder :: "filter_rec option list \<Rightarrow> filter_rec option list"
  isGreaterVersion :: "string \<Rightarrow> string option \<Rightarrow> bool"
  SEARCH_AND_SELF_PROMO_FILTER_ID :: int
  CUSTOM_FILTERS_GROUP_ID :: int

text \<open>
  A JavaScript exception: the \<open>TypeError\<close> of a property access on \<open>undefined\<close>, and the
  string thrown by \<open>getFilterById\<close>. An operation that throws keeps the state it had
  reached.
\<close>

datatype error = TypeError | FilterNotFound int

type_synonym outcome = "(error \<times> state) + state"

section \<open>Truthiness\<close>

definition truthy_num :: "int option \<Rightarrow> bool" where
  "truthy_num v = (case v of None \<Rightarrow> False | Some n \<Rightarrow> n \<noteq> 0)"

definition truthy_str :: "string option \<Rightarrow> bool" where
  "truthy_str v = (case v of None \<Rightarrow> False | Some t \<Rightarrow> t \<noteq> [])"

section \<open>The collaborators\<close>

text \<open>
  Modelled from the spec: the cache module (the Filter Registry, "in-memory store of
  filter/group metadata, keyed by identifier; supports get/set/remove by id", "list all
  filters; list all groups") is not among the sources. \<open>cache.getFilter\<close> returns the
  object registered under the identifier or \<open>undefined\<close>; \<open>cache.getFilters\<close> lists the
  objects.
\<close>

definition cache_getFilter :: "state \<Rightarrow> int \<Rightarrow> filter_rec option" where
  "cache_getFilter s fid = find (\<lambda>f. filterId f = fid) (cache_filters s)"

definition cache_getGroup :: "state \<Rightarrow> int \<Rightarrow> group_rec option" where
  "cache_getGroup s gid = find (\<lambda>g. g_groupId g = gid) (cache_groups s)"

text \<open>
  An assignment to a field of the object that \<open>cache.getFilter\<close> returned changes the
  registered object itself.
\<close>

fun modifyFilter :: "int \<Rightarrow> (filter_rec \<Rightarrow> filter_rec) \<Rightarrow> filter_rec list \<Rightarrow> filter_rec list" where
  "modifyFilter fid g [] = []"
| "modifyFilter fid g (f # fs) =
     (if filterId f = fid then g f # fs else f # modifyFilter fid g fs)"

fun modifyGroup :: "int \<Rightarrow> (group_rec \<Rightarrow> group_rec) \<Rightarrow> group_rec list \<Rightarrow> group_rec list" where
  "modifyGroup gid g [] = []"
| "modifyGroup gid g (x # xs) =
     (if g_groupId x = gid then g x # xs else x # modifyGroup gid g xs)"

text \<open>\<open>listeners.notifyListeners\<close>: the notification is recorded.\<close>

definition notifyListeners :: "event \<Rightarrow> state \<Rightarrow> state" where
  "notifyListeners e s = s\<lparr>trace := trace s @ [Notify e]\<rparr>"

definition request :: "effect \<Rightarrow> state \<Rightarrow> state" where
  "request e s = s\<lparr>trace := trace s @ [e]\<rparr>"

text \<open>The requests that go to the network, and the popup notification.\<close>

fun is_network_request :: "effect \<Rightarrow> bool" where
  "is_network_request (LoadFiltersMetadata ids) = True"
| "is_network_request (LoadFilterRules fid forceRemote) = True"
| "is_network_request (UpdateCustomFilter f) = True"
| "is_network_request (Notify e) = False"
| "is_network_request (StorageSetItem k v) = False"

fun is_popup :: "effect \<Rightarrow> bool" where
  "is_popup (Notify (UPDATE_FILTERS_SHOW_POPUP p)) = True"
| "is_popup e = False"

text \<open>
  The assignments \<open>g\<close> to the fields of the filter object with identifier \<open>fid\<close>, followed
  by the notifications \<open>evs\<close>, whose payload is the object after the assignments. The
  object is found through the registry; none of the operations below removes a filter,
  so the reference a closure holds and the registered object are the same.
\<close>

definition withFilter ::
  "int \<Rightarrow> (filter_rec \<Rightarrow> filter_rec) \<Rightarrow> (filter_rec \<Rightarrow> event list) \<Rightarrow> state \<Rightarrow> state" where
  "withFilter fid g evs s =
     (case cache_getFilter s fid of
        None \<Rightarrow> s
      | Some f \<Rightarrow> s\<lparr>cache_filters := modifyFilter fid g (cache_filters s),
                    trace := trace s @ map Notify (evs (g f))\<rparr>)"

text \<open>
  Modelled from the spec: \<open>collections.removeDuplicates\<close> is not among the sources
  ("deduplicates ids", "in the order given (after id de-duplication)"). The first
  occurrence of each identifier stays, in its place.
\<close>

fun removeDuplicates :: "int list \<Rightarrow> int list" where
  "removeDuplicates [] = []"
| "removeDuplicates (x # xs) = x # removeDuplicates (filter (\<lambda>y. y \<noteq> x) xs)"

text \<open>
  Modelled from the spec: \<open>subscriptions.groupHasEnabledStatus\<close> is not among the sources
  ("the filter's group has never been toggled (\<open>enabled\<close> undefined)").
\<close>

definition groupHasEnabledStatus :: "state \<Rightarrow> int \<Rightarrow> bool" where
  "groupHasEnabledStatus s gid =
     (case cache_getGroup s gid of None \<Rightarrow> False | Some g \<Rightarrow> g_enabled g \<noteq> None)"

section \<open>The filters manager\<close>

definition getFilterById :: "state \<Rightarrow> int \<Rightarrow> (error \<times> state) + filter_rec" where
  "getFilterById s fid =
     (case cache_getFilter s fid of None \<Rightarrow> Inl (FilterNotFound fid, s) | Some f \<Rightarrow> Inr f)"

text \<open>The body of the loop of \<open>getFilters\<close>, for one filter object.\<close>

definition mergeFilter :: "state \<Rightarrow> filter_rec \<Rightarrow> filter_rec" where
  "mergeFilter s f =
     (let f1 = (case filtersVersionInfo s (filterId f) of
                  None \<Rightarrow> f
                | Some vi \<Rightarrow> f\<lparr>version := vi_version vi,
                               lastCheckTime := vi_lastCheckTime vi,
                               lastUpdateTime := vi_lastUpdateTime vi\<rparr>)
      in (case filtersStateInfo s (filterId f) of
            None \<Rightarrow> f1
          | Some si \<Rightarrow> f1\<lparr>enabled := si_enabled si,
                          installed := si_installed si,
                          loaded := si_loaded si\<rparr>))"

text \<open>\<open>getFilters\<close> writes into the objects of the registry and returns their list.\<close>

definition getFilters :: "state \<Rightarrow> filter_rec list \<times> state" where
  "getFilters s =
     (let filters = map (mergeFilter s) (cache_filters s)
      in (filters, s\<lparr>cache_filters := filters\<rparr>))"

definition mergeGroup :: "state \<Rightarrow> group_rec \<Rightarrow> group_rec" where
  "mergeGroup s g =
     (case groupsStateInfo s (g_groupId g) of
        None \<Rightarrow> g
      | Some gi \<Rightarrow> g\<lparr>g_enabled := gs_enabled gi\<rparr>)"

text \<open>
  \<open>getGroups\<close> has no \<open>return\<close> statement: its value is \<open>undefined\<close>, here \<open>None\<close>.
\<close>

definition getGroups :: "state \<Rightarrow> group_rec list option \<times> state" where
  "getGroups s = (None, s\<lparr>cache_groups := map (mergeGroup s) (cache_groups s)\<rparr>)"

definition enableGroup :: "int \<Rightarrow> state \<Rightarrow> state" where
  "enableGroup gid s =
     (case cache_getGroup s gid of
        None \<Rightarrow> s
      | Some g \<Rightarrow>
          if g_enabled g = Some True then s
          else notifyListeners (FILTER_GROUP_ENABLE_DISABLE (g\<lparr>g_enabled := Some True\<rparr>))
                 (s\<lparr>cache_groups :=
                      modifyGroup gid (\<lambda>x. x\<lparr>g_enabled := Some True\<rparr>) (cache_groups s)\<rparr>))"

definition disableGroup :: "int \<Rightarrow> state \<Rightarrow> state" where
  "disableGroup gid s =
     (case cache_getGroup s gid of
        None \<Rightarrow> s
      | Some g \<Rightarrow>
          if g_enabled g \<noteq> Some True then s
          else notifyListeners (FILTER_GROUP_ENABLE_DISABLE (g\<lparr>g_enabled := Some False\<rparr>))
                 (s\<lparr>cache_groups :=
                      modifyGroup gid (\<lambda>x. x\<lparr>g_enabled := Some False\<rparr>) (cache_groups s)\<rparr>))"

definition isFilterEnabled :: "state \<Rightarrow> int \<Rightarrow> bool" where
  "isFilterEnabled s fid =
     (case cache_getFilter s fid of
        None \<Rightarrow> False
      | Some f \<Rightarrow> (case filtersStateInfo s fid of None \<Rightarrow> False | Some si \<Rightarrow> si_enabled si))"

definition enableFilter :: "env \<Rightarrow> int \<Rightarrow> state \<Rightarrow> outcome" where
  "enableFilter env fid s =
     (case cache_getFilter s fid of
        None \<Rightarrow> Inl (TypeError, s)
      | Some f \<Rightarrow>
          let s1 = withFilter fid (\<lambda>x. x\<lparr>enabled := True\<rparr>) (\<lambda>x. []) s;
              gid = groupId f;
              s2 = (if \<not> groupHasEnabledStatus s1 gid then enableGroup gid s1
                    else if fid = SEARCH_AND_SELF_PROMO_FILTER_ID env
                            \<or> gid = CUSTOM_FILTERS_GROUP_ID env then enableGroup gid s1
                    else s1)
          in Inr (withFilter fid (\<lambda>x. x) (\<lambda>x. [FILTER_ENABLE_DISABLE x]) s2))"

text \<open>
  \<open>loadFilterRules\<close> of the update service, used by \<open>addAntiBannerFilter\<close> and by
  \<open>loadFiltersFromBackend\<close>. It runs in two parts: up to the request to the service
  client, and the callback that the response triggers. \<open>filterMetadata\<close> is an object of
  the same shape as a filter (the filter itself in \<open>addAntiBannerFilter\<close>).
\<close>

definition loadFilterRules_request :: "filter_rec \<Rightarrow> bool \<Rightarrow> state \<Rightarrow> outcome" where
  "loadFilterRules_request filterMetadata forceRemote s =
     (case cache_getFilter s (filterId filterMetadata) of
        None \<Rightarrow> Inl (TypeError, s)
      | Some f \<Rightarrow>
          Inr (request (LoadFilterRules (filterId f) forceRemote)
                 (withFilter (filterId f) (\<lambda>x. x\<lparr>isDownloading := True\<rparr>)
                    (\<lambda>x. [START_DOWNLOAD_FILTER x]) s)))"

definition loadFilterRules_response :: "env \<Rightarrow> filter_rec \<Rightarrow> bool \<Rightarrow> state \<Rightarrow> bool \<times> state" where
  "loadFilterRules_response env filterMetadata forceRemote s =
     (case loadFilterRulesResponse env (filterId filterMetadata) forceRemote of
        RulesLoaded filterRules t \<Rightarrow>
          (True,
           withFilter (filterId filterMetadata)
             (\<lambda>x. x\<lparr>isDownloading := False,
                     version := version filterMetadata,
                     lastUpdateTime := timeUpdated filterMetadata,
                     lastCheckTime := Some t,
                     loaded := True\<rparr>)
             (\<lambda>x. [SUCCESS_DOWNLOAD_FILTER x, UPDATE_FILTER_RULES x filterRules]) s)
      | RulesFailed \<Rightarrow>
          (False,
           withFilter (filterId filterMetadata) (\<lambda>x. x\<lparr>isDownloading := False\<rparr>)
             (\<lambda>x. [ERROR_DOWNLOAD_FILTER x]) s))"

definition onFilterLoaded :: "int \<Rightarrow> bool \<Rightarrow> state \<Rightarrow> state" where
  "onFilterLoaded fid ok s =
     (if ok then withFilter fid (\<lambda>x. x\<lparr>installed := True\<rparr>) (\<lambda>x. [FILTER_ADD_REMOVE (Some x)]) s
      else s)"

text \<open>
  \<open>addAntiBannerFilter\<close> calls its callback once, as the last thing it does; the model
  returns the callback's argument and the state in which the callback starts.
\<close>

definition addAntiBannerFilter :: "env \<Rightarrow> int \<Rightarrow> state \<Rightarrow> (error \<times> state) + (bool \<times> state)" where
  "addAntiBannerFilter env fid s =
     (case getFilterById s fid of
        Inl e \<Rightarrow> Inl e
      | Inr f \<Rightarrow>
          if installed f then Inr (True, s)
          else if loaded f then Inr (True, onFilterLoaded fid True s)
          else (case loadFilterRules_request f False s of
                  Inl e \<Rightarrow> Inl e
                | Inr s1 \<Rightarrow>
                    (case loadFilterRules_response env f False s1 of
                       (ok, s2) \<Rightarrow> Inr (ok, onFilterLoaded fid ok s2))))"

fun loadNextFilter :: "env \<Rightarrow> int list \<Rightarrow> state \<Rightarrow> outcome" where
  "loadNextFilter env [] s = Inr s"
| "loadNextFilter env (fid # rest) s =
     (case addAntiBannerFilter env fid s of
        Inl e \<Rightarrow> Inl e
      | Inr (ok, s1) \<Rightarrow>
          if ok then (case enableFilter env fid s1 of
                        Inl e \<Rightarrow> Inl e
                      | Inr s2 \<Rightarrow> loadNextFilter env rest s2)
          else loadNextFilter env rest s1)"

text \<open>The argument is \<open>None\<close> for a null or missing list.\<close>

definition addAndEnableFilters :: "env \<Rightarrow> int list option \<Rightarrow> state \<Rightarrow> outcome" where
  "addAndEnableFilters env filterIds s =
     (case filterIds of
        None \<Rightarrow> Inr s
      | Some ids \<Rightarrow> if length ids = 0 then Inr s else loadNextFilter env (removeDuplicates ids) s)"

fun disableLoop :: "int list \<Rightarrow> state \<Rightarrow> outcome" where
  "disableLoop [] s = Inr s"
| "disableLoop (fid # rest) s =
     (if \<not> isFilterEnabled s fid then Inr s
      else (case cache_getFilter s fid of
              None \<Rightarrow> Inl (TypeError, s)
            | Some f \<Rightarrow>
                disableLoop rest
                  (withFilter fid (\<lambda>x. x\<lparr>enabled := False\<rparr>) (\<lambda>x. [FILTER_ENABLE_DISABLE x]) s)))"

definition disableFilters :: "int list \<Rightarrow> state \<Rightarrow> outcome" where
  "disableFilters filterIds s = disableLoop (removeDuplicates filterIds) s"

section \<open>The filters update service\<close>

definition FILTERS_UPDATE_LAST_CHECK_KEY :: string where
  "FILTERS_UPDATE_LAST_CHECK_KEY = ''filters-update-last-check''"

definition ENABLED_FILTERS_SKIP_TIMEOUT :: int where
  "ENABLED_FILTERS_SKIP_TIMEOUT = 5 * 60 * 1000"

definition setFiltersUpdateLastCheck :: "int \<Rightarrow> state \<Rightarrow> state" where
  "setFiltersUpdateLastCheck v s =
     s\<lparr>storage := (storage s)(FILTERS_UPDATE_LAST_CHECK_KEY \<mapsto> v),
       trace := trace s @ [StorageSetItem FILTERS_UPDATE_LAST_CHECK_KEY v]\<rparr>"

definition getFiltersUpdateLastCheck :: "state \<Rightarrow> int option" where
  "getFiltersUpdateLastCheck s = storage s FILTERS_UPDATE_LAST_CHECK_KEY"

record to_update =
  filterIds :: "int list"
  customFilterIds :: "int list"

text \<open>
  \<open>needUpdate\<close> of \<open>selectFilterIdsToUpdate\<close>. With \<open>lastCheckTime\<close> undefined the
  subtraction gives NaN and the comparison is false, but the negation before it is true.
\<close>

definition needUpdate :: "env \<Rightarrow> bool \<Rightarrow> int \<Rightarrow> filter_rec \<Rightarrow> bool" where
  "needUpdate env force updateFiltersPeriodInMs f =
     (force \<or> (\<not> truthy_num (lastCheckTime f)
        \<or> (case lastCheckTime f of
              None \<Rightarrow> False
            | Some t \<Rightarrow> dateNow env - t \<ge> updateFiltersPeriodInMs)))"

fun selectLoop :: "env \<Rightarrow> bool \<Rightarrow> int \<Rightarrow> filter_rec list \<Rightarrow> int list" where
  "selectLoop env force p [] = []"
| "selectLoop env force p (f # fs) =
     (if installed f \<and> enabled f then
        (if needUpdate env force p f then
           (if \<not> truthy_str (customUrl f) then filterId f # selectLoop env force p fs
            else selectLoop env force p fs)
         else selectLoop env force p fs)
      else selectLoop env force p fs)"

text \<open>
  \<open>filtersToUpdate\<close> is \<open>None\<close> when the optional array is not supplied; an array, also
  an empty one, is truthy.
\<close>

definition selectFilterIdsToUpdate ::
  "env \<Rightarrow> bool \<Rightarrow> filter_rec list option \<Rightarrow> state \<Rightarrow> to_update" where
  "selectFilterIdsToUpdate env force filtersToUpdate s =
     (let custom =
            map filterId
              (filter enabled
                 (filter (\<lambda>f. case filtersToUpdate of
                                 None \<Rightarrow> True
                               | Some xs \<Rightarrow> find (\<lambda>x. filterId x = filterId f) xs \<noteq> None)
                    (customFilterStore s)));
          filters = (case filtersToUpdate of None \<Rightarrow> cache_filters s | Some xs \<Rightarrow> xs);
          updateFiltersPeriodInMs = updateFiltersPeriod s * 60 * 60 * 1000
      in \<lparr>filterIds = selectLoop env force updateFiltersPeriodInMs filters,
          customFilterIds = custom\<rparr>)"

definition loadFiltersMetadataFromBackend ::
  "env \<Rightarrow> int list \<Rightarrow> state \<Rightarrow> filter_rec list option \<times> state" where
  "loadFiltersMetadataFromBackend env ids s =
     (if length ids = 0 then (Some [], s)
      else (loadFiltersMetadataResponse env ids, request (LoadFiltersMetadata ids) s))"

text \<open>
  \<open>loadFiltersFromBackend\<close>. First the \<open>forEach\<close>: every promise's executor runs
  \<open>loadFilterRules\<close> up to its request; an executor that throws rejects its promise and the
  loop goes on.
\<close>

fun startDownloads :: "filter_rec list \<Rightarrow> state \<Rightarrow> filter_rec list \<times> bool \<times> state" where
  "startDownloads [] s = ([], False, s)"
| "startDownloads (md # mds) s =
     (case loadFilterRules_request md True s of
        Inl (e, s1) \<Rightarrow>
          (case startDownloads mds s1 of (pend, threw, s2) \<Rightarrow> (pend, True, s2))
      | Inr s1 \<Rightarrow>
          (case startDownloads mds s1 of (pend, threw, s2) \<Rightarrow> (md # pend, threw, s2)))"

text \<open>
  Then the responses, in the order in which they arrive. \<open>Promise.all\<close> settles at the
  first rejection, or once every promise has resolved: \<open>awaitDownloads\<close> returns the
  state in which the callback of \<open>loadFiltersFromBackend\<close> is called, the arguments of
  that call, and the downloads still under way at that moment.
\<close>

fun awaitDownloads ::
  "env \<Rightarrow> filter_rec list \<Rightarrow> int list \<Rightarrow> state
     \<Rightarrow> state \<times> (bool \<times> int list option) \<times> filter_rec list" where
  "awaitDownloads env [] loadedFilters s = (s, (True, Some loadedFilters), [])"
| "awaitDownloads env (md # pend) loadedFilters s =
     (case loadFilterRules_response env md True s of
        (ok, s1) \<Rightarrow>
          if ok then awaitDownloads env pend (loadedFilters @ [filterId md]) s1
          else (s1, (False, None), pend))"

definition loadFiltersFromBackend ::
  "env \<Rightarrow> filter_rec list \<Rightarrow> state \<Rightarrow> state \<times> (bool \<times> int list option) \<times> filter_rec list" where
  "loadFiltersFromBackend env filterMetadataList s =
     (case startDownloads filterMetadataList s of
        (pend, threw, s1) \<Rightarrow>
          if threw then (s1, (False, None), rulesResponseOrder env pend)
          else awaitDownloads env (rulesResponseOrder env pend) [] s1)"

text \<open>The responses of the downloads that were still under way when the promise settled.\<close>

fun completeDownloads :: "env \<Rightarrow> filter_rec list \<Rightarrow> state \<Rightarrow> state" where
  "completeDownloads env [] s = s"
| "completeDownloads env (md # pend) s =
     completeDownloads env pend (snd (loadFilterRules_response env md True s))"

text \<open>
  \<open>updateCustomFilters\<close>: the loop hands every filter to \<open>customFilters.updateCustomFilter\<close>
  and notifies; every promise resolves, and the callback gets the filters whose update
  answered with a truthy identifier, in the order of the answers. The model returns the
  callback's argument and the state in which it is called.
\<close>

fun startCustomUpdates :: "int list \<Rightarrow> state \<Rightarrow> filter_rec option list \<times> state" where
  "startCustomUpdates [] s = ([], s)"
| "startCustomUpdates (cid # cids) s =
     (let f = cache_getFilter s cid;
          s1 = notifyListeners (FILTER_ADD_REMOVE f) (request (UpdateCustomFilter f) s)
      in case startCustomUpdates cids s1 of (fs, s2) \<Rightarrow> (f # fs, s2))"

definition updateCustomFilters ::
  "env \<Rightarrow> int list \<Rightarrow> state \<Rightarrow> filter_rec option list \<times> state" where
  "updateCustomFilters env customIds s =
     (if length customIds = 0 then ([], s)
      else (case startCustomUpdates customIds s of
              (attempted, s1) \<Rightarrow>
                (filter (\<lambda>f. truthy_num (updateCustomFilterResponse env f))
                   (customResponseOrder env attempted), s1)))"

definition onSuccess :: "env \<Rightarrow> bool \<Rightarrow> filter_rec option list \<Rightarrow> state \<Rightarrow> state" where
  "onSuccess env force updated s =
     notifyListeners
       (UPDATE_FILTERS_SHOW_POPUP
          \<lparr>success = True, updatedFilters = Some updated, forceUpdate = force,
           filtersUpdateLastCheck = dateNow env\<rparr>) s"

definition onError :: "env \<Rightarrow> bool \<Rightarrow> state \<Rightarrow> state" where
  "onError env force s =
     notifyListeners
       (UPDATE_FILTERS_SHOW_POPUP
          \<lparr>success = False, updatedFilters = None, forceUpdate = force,
           filtersUpdateLastCheck = dateNow env\<rparr>) s"

text \<open>The loop of \<open>onLoadFilterMetadataList\<close>: the metadata that go on to the download.\<close>

fun filterMetadataListToUpdate :: "env \<Rightarrow> state \<Rightarrow> filter_rec list \<Rightarrow> filter_rec list" where
  "filterMetadataListToUpdate env s [] = []"
| "filterMetadataListToUpdate env s (md # mds) =
     (case cache_getFilter s (filterId md) of
        None \<Rightarrow> filterMetadataListToUpdate env s mds
      | Some f \<Rightarrow>
          (case version md of
             None \<Rightarrow> filterMetadataListToUpdate env s mds
           | Some v \<Rightarrow>
               if v \<noteq> [] \<and> isGreaterVersion env v (version f)
               then md # filterMetadataListToUpdate env s mds
               else filterMetadataListToUpdate env s mds))"

text \<open>
  The two inner functions of \<open>checkAntiBannerFiltersUpdate\<close>. The callback given to
  \<open>loadFiltersFromBackend\<close> runs in the state in which the promise settles; the downloads
  still under way at that moment get their responses afterwards.
\<close>

definition loadFiltersFromBackendCallback ::
  "env \<Rightarrow> bool \<Rightarrow> int list \<Rightarrow> filter_rec list \<Rightarrow> state \<Rightarrow> state" where
  "loadFiltersFromBackendCallback env force customFilterIdsToUpdate filterMetadataList s =
     (case loadFiltersFromBackend env filterMetadataList s of
        (s2, (ok, loadedIds), pend) \<Rightarrow>
          completeDownloads env pend
            (if ok then
               (case updateCustomFilters env customFilterIdsToUpdate s2 of
                  (customs, s3) \<Rightarrow>
                    onSuccess env force
                      (map Some
                         (List.map_filter (cache_getFilter s2)
                            (case loadedIds of None \<Rightarrow> [] | Some ids \<Rightarrow> ids))
                       @ customs) s3)
             else onError env force s2))"

text \<open>The response is \<open>None\<close> for \<open>success = false\<close>.\<close>

definition onLoadFilterMetadataList ::
  "env \<Rightarrow> bool \<Rightarrow> int list \<Rightarrow> filter_rec list option \<Rightarrow> state \<Rightarrow> state" where
  "onLoadFilterMetadataList env force customFilterIdsToUpdate response s =
     (case response of
        None \<Rightarrow> onError env force s
      | Some filterMetadataList \<Rightarrow>
          loadFiltersFromBackendCallback env force customFilterIdsToUpdate
            (filterMetadataListToUpdate env s filterMetadataList) s)"

definition checkAntiBannerFiltersUpdate ::
  "env \<Rightarrow> bool \<Rightarrow> filter_rec list option \<Rightarrow> state \<Rightarrow> state" where
  "checkAntiBannerFiltersUpdate env force filters s =
     (let s0 = setFiltersUpdateLastCheck (dateNow env) s;
          toUpdate = selectFilterIdsToUpdate env force filters s0;
          filterIdsToUpdate = filterIds toUpdate;
          customFilterIdsToUpdate = customFilterIds toUpdate
      in if length filterIdsToUpdate + length customFilterIdsToUpdate = 0
         then onSuccess env force [] s0
         else (case loadFiltersMetadataFromBackend env filterIdsToUpdate s0 of
                 (response, s1) \<Rightarrow>
                   onLoadFilterMetadataList env force customFilterIdsToUpdate response s1))"

text \<open>
  \<open>checkFilterUpdate\<close>. With \<open>lastCheckTime\<close> undefined the difference is NaN and the
  comparison is false.
\<close>

definition checkFilterUpdate :: "env \<Rightarrow> filter_rec \<Rightarrow> state \<Rightarrow> state" where
  "checkFilterUpdate env f s =
     (if \<not> enabled f then s
      else if (case lastCheckTime f of
                 None \<Rightarrow> False
               | Some t \<Rightarrow> dateNow env - t < ENABLED_FILTERS_SKIP_TIMEOUT) then s
      else checkAntiBannerFiltersUpdate env True (Some [f]) s)"

section \<open>A small installation\<close>

text \<open>
  A registry with three filters of group 1 and two custom filters of group 0, used to
  evaluate the operations at concrete inputs.
\<close>

definition ex_filter :: "int \<Rightarrow> filter_rec" where
  "ex_filter i =
     \<lparr>filterId = i, groupId = 1, version = Some ''1.2.0'', timeUpdated = None,
      customUrl = None, enabled = False, installed = False, loaded = False,
      lastCheckTime = None, lastUpdateTime = None, isDownloading = False\<rparr>"

definition ex_custom :: filter_rec where
  "ex_custom =
     \<lparr>filterId = 1000, groupId = 0, version = Some ''1.0.0'', timeUpdated = None,
      customUrl = Some ''https://example.org/list.txt'', enabled = True, installed = True,
      loaded = True, lastCheckTime = None, lastUpdateTime = None, isDownloading = False\<rparr>"

definition ex_custom_b :: filter_rec where
  "ex_custom_b = ex_custom\<lparr>filterId := 1001\<rparr>"

definition ex_group :: group_rec where
  "ex_group = \<lparr>g_groupId = 1, g_enabled = None\<rparr>"

definition ex_state :: state where
  "ex_state =
     \<lparr>cache_filters = [ex_filter 1, ex_filter 2, ex_filter 3, ex_custom, ex_custom_b],
      cache_groups = [ex_group],
      filtersVersionInfo = Map.empty,
      filtersStateInfo =
        [1 \<mapsto> \<lparr>si_enabled = True, si_installed = True, si_loaded = True\<rparr>,
         3 \<mapsto> \<lparr>si_enabled = True, si_installed = True, si_loaded = True\<rparr>],
      groupsStateInfo = [1 \<mapsto> \<lparr>gs_enabled = Some True\<rparr>],
      customFilterStore = [ex_custom, ex_custom_b],
      updateFiltersPeriod = 1,
      storage = Map.empty,
      trace = []\<rparr>"

text \<open>
  The downloads of filter 2 fail, all others succeed; the update of the custom filter
  1000 succeeds and that of 1001 fails; the responses arrive in the reverse order of the
  requests; a version is greater when its text differs from the cached one.
\<close>

definition ex_env :: env where
  "ex_env =
     \<lparr>dateNow = 1700000000000,
      loadFilterRulesResponse =
        (\<lambda>fid forceRemote. if fid = 2 then RulesFailed else RulesLoaded [''||ads^''] 1700000000500),
      loadFiltersMetadataResponse =
        (\<lambda>ids. Some (map (\<lambda>i. (ex_filter i)\<lparr>version := Some ''1.3.0''\<rparr>) ids)),
      updateCustomFilterResponse =
        (\<lambda>f. case f of
                None \<Rightarrow> None
              | Some x \<Rightarrow> if filterId x = 1001 then None else Some (filterId x)),
      rulesResponseOrder = rev,
      customResponseOrder = rev,
      isGreaterVersion = (\<lambda>l r. Some l \<noteq> r),
      SEARCH_AND_SELF_PROMO_FILTER_ID = 10,
      CUSTOM_FILTERS_GROUP_ID = 0\<rparr>"

text \<open>Filter 1, installed and enabled, last checked the given number of minutes ago.\<close>

definition ex_recent :: "int \<Rightarrow> filter_rec" where
  "ex_recent minutes =
     (ex_filter 1)\<lparr>enabled := True, installed := True,
                   lastCheckTime := Some (dateNow ex_env - minutes * 60 * 1000)\<rparr>"

text \<open>Filter \<open>i\<close>, installed and enabled, never checked.\<close>

definition ex_installed :: "int \<Rightarrow> filter_rec" where
  "ex_installed i = (ex_filter i)\<lparr>enabled := True, installed := True\<rparr>"

section \<open>Lookup after an assignment\<close>

lemma set_removeDuplicates: "set (removeDuplicates xs) = set xs"
  by (induction xs rule: removeDuplicates.induct) auto

lemma distinct_removeDuplicates: "distinct (removeDuplicates xs)"
  by (induction xs rule: removeDuplicates.induct) (auto simp: set_removeDuplicates)

lemma find_modifyGroup:
  "(\<And>x. g_groupId (g x) = g_groupId x) \<Longrightarrow>
   find (\<lambda>x. g_groupId x = k) (modifyGroup gid g xs) =
     (if k = gid then map_option g (find (\<lambda>x. g_groupId x = gid) xs)
      else find (\<lambda>x. g_groupId x = k) xs)"
  by (induction xs) auto

lemma find_modifyFilter:
  "(\<And>x. filterId (g x) = filterId x) \<Longrightarrow>
   find (\<lambda>x. filterId x = k) (modifyFilter fid g xs) =
     (if k = fid then map_option g (find (\<lambda>x. filterId x = fid) xs)
      else find (\<lambda>x. filterId x = k) xs)"
  by (induction xs) auto

section \<open>Groups\<close>

lemma enableGroup_twice: "enableGroup gid (enableGroup gid s) = enableGroup gid s"
  by (auto simp: enableGroup_def cache_getGroup_def notifyListeners_def find_modifyGroup
      split: option.splits)

lemma disableGroup_twice: "disableGroup gid (disableGroup gid s) = disableGroup gid s"
  by (auto simp: disableGroup_def cache_getGroup_def notifyListeners_def find_modifyGroup
      split: option.splits)

text \<open>
  C9. \<open>enableGroup\<close> and \<open>disableGroup\<close> are idempotent: the second of two calls in
  succession changes nothing and notifies nobody. For a group that is registered and not
  enabled, two calls of \<open>enableGroup\<close> set the flag and publish exactly one
  \<open>FILTER_GROUP_ENABLE_DISABLE\<close>; for an enabled group two calls of \<open>disableGroup\<close> clear
  the flag and publish exactly one; disabling a group that is not enabled and enabling one
  that is enabled do nothing; for an unknown group identifier both do nothing.
\<close>

theorem enableGroup_disableGroup_idempotent:
  "enableGroup gid (enableGroup gid s) = enableGroup gid s
   \<and> disableGroup gid (disableGroup gid s) = disableGroup gid s
   \<and> (cache_getGroup s gid = None \<longrightarrow> enableGroup gid s = s \<and> disableGroup gid s = s)
   \<and> (\<forall>g. cache_getGroup s gid = Some g \<and> g_enabled g \<noteq> Some True \<longrightarrow>
         trace (enableGroup gid (enableGroup gid s)) =
           trace s @ [Notify (FILTER_GROUP_ENABLE_DISABLE (g\<lparr>g_enabled := Some True\<rparr>))]
         \<and> cache_getGroup (enableGroup gid s) gid = Some (g\<lparr>g_enabled := Some True\<rparr>)
         \<and> disableGroup gid s = s)
   \<and> (\<forall>g. cache_getGroup s gid = Some g \<and> g_enabled g = Some True \<longrightarrow>
         trace (disableGroup gid (disableGroup gid s)) =
           trace s @ [Notify (FILTER_GROUP_ENABLE_DISABLE (g\<lparr>g_enabled := Some False\<rparr>))]
         \<and> cache_getGroup (disableGroup gid s) gid = Some (g\<lparr>g_enabled := Some False\<rparr>)
         \<and> enableGroup gid s = s)"
proof (intro conjI allI impI)
  show "enableGroup gid (enableGroup gid s) = enableGroup gid s" by (rule enableGroup_twice)
  show "disableGroup gid (disableGroup gid s) = disableGroup gid s" by (rule disableGroup_twice)
next
  assume "cache_getGroup s gid = None"
  then show "enableGroup gid s = s" "disableGroup gid s = s"
    by (simp_all add: enableGroup_def disableGroup_def)
next
  fix g assume h: "cache_getGroup s gid = Some g \<and> g_enabled g \<noteq> Some True"
  then show "trace (enableGroup gid (enableGroup gid s)) =
           trace s @ [Notify (FILTER_GROUP_ENABLE_DISABLE (g\<lparr>g_enabled := Some True\<rparr>))]"
    by (simp add: enableGroup_twice) (simp add: enableGroup_def notifyListeners_def)
  from h show "cache_getGroup (enableGroup gid s) gid = Some (g\<lparr>g_enabled := Some True\<rparr>)"
    by (simp add: enableGroup_def notifyListeners_def cache_getGroup_def find_modifyGroup)
  from h show "disableGroup gid s = s" by (simp add: disableGroup_def)
next
  fix g assume h: "cache_getGroup s gid = Some g \<and> g_enabled g = Some True"
  then show "trace (disableGroup gid (disableGroup gid s)) =
           trace s @ [Notify (FILTER_GROUP_ENABLE_DISABLE (g\<lparr>g_enabled := Some False\<rparr>))]"
    by (simp add: disableGroup_twice) (simp add: disableGroup_def notifyListeners_def)
  from h show "cache_getGroup (disableGroup gid s) gid = Some (g\<lparr>g_enabled := Some False\<rparr>)"
    by (simp add: disableGroup_def notifyListeners_def cache_getGroup_def find_modifyGroup)
  from h show "enableGroup gid s = s" by (simp add: enableGroup_def)
qed

theorem enableGroup_disableGroup_idempotent_witness:
  "cache_getGroup ex_state 1 = Some ex_group \<and> g_enabled ex_group \<noteq> Some True
   \<and> cache_getGroup ex_state 7 = None
   \<and> trace (enableGroup 1 (enableGroup 1 ex_state)) =
       [Notify (FILTER_GROUP_ENABLE_DISABLE \<lparr>g_groupId = 1, g_enabled = Some True\<rparr>)]
   \<and> cache_getGroup (enableGroup 1 ex_state) 1 = Some \<lparr>g_groupId = 1, g_enabled = Some True\<rparr>
   \<and> disableGroup 1 ex_state = ex_state
   \<and> enableGroup 7 ex_state = ex_state \<and> disableGroup 7 ex_state = ex_state"
proof -
  have g: "cache_getGroup ex_state 1 = Some ex_group" "g_enabled ex_group \<noteq> Some True"
    by (simp_all add: cache_getGroup_def ex_state_def ex_group_def)
  have n: "cache_getGroup ex_state 7 = None"
    by (simp add: cache_getGroup_def ex_state_def ex_group_def)
  have t: "trace ex_state = []" by (simp add: ex_state_def)
  from enableGroup_disableGroup_idempotent [of 1 ex_state] g t
  have a: "trace (enableGroup 1 (enableGroup 1 ex_state)) =
       [Notify (FILTER_GROUP_ENABLE_DISABLE \<lparr>g_groupId = 1, g_enabled = Some True\<rparr>)]
   \<and> cache_getGroup (enableGroup 1 ex_state) 1 = Some \<lparr>g_groupId = 1, g_enabled = Some True\<rparr>
   \<and> disableGroup 1 ex_state = ex_state"
    by (auto simp: ex_group_def)
  from enableGroup_disableGroup_idempotent [of 7 ex_state] n
  have b: "enableGroup 7 ex_state = ex_state \<and> disableGroup 7 ex_state = ex_state"
    by simp
  from g n a b show ?thesis by simp
qed

section \<open>The projections\<close>

lemma mergeFilter_fields:
  "filterId (mergeFilter s f) = filterId f"
  "groupId (mergeFilter s f) = groupId f"
  "customUrl (mergeFilter s f) = customUrl f"
  "timeUpdated (mergeFilter s f) = timeUpdated f"
  "isDownloading (mergeFilter s f) = isDownloading f"
  by (simp_all add: mergeFilter_def Let_def split: option.splits)

lemma mergeFilter_version:
  "(case filtersVersionInfo s (filterId f) of
      None \<Rightarrow> version (mergeFilter s f) = version f
              \<and> lastCheckTime (mergeFilter s f) = lastCheckTime f
              \<and> lastUpdateTime (mergeFilter s f) = lastUpdateTime f
    | Some vi \<Rightarrow> version (mergeFilter s f) = vi_version vi
              \<and> lastCheckTime (mergeFilter s f) = vi_lastCheckTime vi
              \<and> lastUpdateTime (mergeFilter s f) = vi_lastUpdateTime vi)"
  by (simp add: mergeFilter_def Let_def split: option.splits)

lemma mergeFilter_state:
  "(case filtersStateInfo s (filterId f) of
      None \<Rightarrow> enabled (mergeFilter s f) = enabled f
              \<and> installed (mergeFilter s f) = installed f
              \<and> loaded (mergeFilter s f) = loaded f
    | Some si \<Rightarrow> enabled (mergeFilter s f) = si_enabled si
              \<and> installed (mergeFilter s f) = si_installed si
              \<and> loaded (mergeFilter s f) = si_loaded si)"
  by (simp add: mergeFilter_def Let_def split: option.splits)

lemma mergeGroup_fields:
  "g_groupId (mergeGroup s g) = g_groupId g"
  "g_enabled (mergeGroup s g) =
     (case groupsStateInfo s (g_groupId g) of None \<Rightarrow> g_enabled g | Some gi \<Rightarrow> gs_enabled gi)"
  by (simp_all add: mergeGroup_def split: option.splits)

text \<open>
  C8, in the form that holds of the code. \<open>getFilters\<close> merges the persisted state into every filter object of
  the registry (version, lastCheckTime and lastUpdateTime where a version entry exists;
  enabled, installed and loaded where a state entry exists; nothing else) and returns the
  merged list, which is also what the registry then holds. \<open>getGroups\<close> merges the
  persisted \<open>enabled\<close> into the registry's group objects in the same way but returns
  nothing. Neither changes anything but the registry's objects: the persisted store, the
  storage and the trace stay as they were.
\<close>
theorem getFilters_getGroups_merge:
  "length (fst (getFilters s)) = length (cache_filters s)
   \<and> (\<forall>i < length (cache_filters s).
        filterId (fst (getFilters s) ! i) = filterId (cache_filters s ! i)
        \<and> groupId (fst (getFilters s) ! i) = groupId (cache_filters s ! i)
        \<and> customUrl (fst (getFilters s) ! i) = customUrl (cache_filters s ! i)
        \<and> timeUpdated (fst (getFilters s) ! i) = timeUpdated (cache_filters s ! i)
        \<and> isDownloading (fst (getFilters s) ! i) = isDownloading (cache_filters s ! i)
        \<and> (case filtersVersionInfo s (filterId (cache_filters s ! i)) of
              None \<Rightarrow> version (fst (getFilters s) ! i) = version (cache_filters s ! i)
                \<and> lastCheckTime (fst (getFilters s) ! i) = lastCheckTime (cache_filters s ! i)
                \<and> lastUpdateTime (fst (getFilters s) ! i) = lastUpdateTime (cache_filters s ! i)
            | Some vi \<Rightarrow> version (fst (getFilters s) ! i) = vi_version vi
                \<and> lastCheckTime (fst (getFilters s) ! i) = vi_lastCheckTime vi
                \<and> lastUpdateTime (fst (getFilters s) ! i) = vi_lastUpdateTime vi)
        \<and> (case filtersStateInfo s (filterId (cache_filters s ! i)) of
              None \<Rightarrow> enabled (fst (getFilters s) ! i) = enabled (cache_filters s ! i)
                \<and> installed (fst (getFilters s) ! i) = installed (cache_filters s ! i)
                \<and> loaded (fst (getFilters s) ! i) = loaded (cache_filters s ! i)
            | Some si \<Rightarrow> enabled (fst (getFilters s) ! i) = si_enabled si
                \<and> installed (fst (getFilters s) ! i) = si_installed si
                \<and> loaded (fst (getFilters s) ! i) = si_loaded si))
   \<and> snd (getFilters s) = s\<lparr>cache_filters := fst (getFilters s)\<rparr>
   \<and> fst (getGroups s) = None
   \<and> length (cache_groups (snd (getGroups s))) = length (cache_groups s)
   \<and> (\<forall>i < length (cache_groups s).
        g_groupId (cache_groups (snd (getGroups s)) ! i) = g_groupId (cache_groups s ! i)
        \<and> g_enabled (cache_groups (snd (getGroups s)) ! i) =
            (case groupsStateInfo s (g_groupId (cache_groups s ! i)) of
               None \<Rightarrow> g_enabled (cache_groups s ! i)
             | Some gi \<Rightarrow> gs_enabled gi))
   \<and> snd (getGroups s) = s\<lparr>cache_groups := cache_groups (snd (getGroups s))\<rparr>"
proof (intro conjI allI impI)
  show "length (fst (getFilters s)) = length (cache_filters s)"
    by (simp add: getFilters_def Let_def)
next
  fix i assume i: "i < length (cache_filters s)"
  then have nth: "fst (getFilters s) ! i = mergeFilter s (cache_filters s ! i)"
    by (simp add: getFilters_def Let_def)
  show "filterId (fst (getFilters s) ! i) = filterId (cache_filters s ! i)"
       "groupId (fst (getFilters s) ! i) = groupId (cache_filters s ! i)"
       "customUrl (fst (getFilters s) ! i) = customUrl (cache_filters s ! i)"
       "timeUpdated (fst (getFilters s) ! i) = timeUpdated (cache_filters s ! i)"
       "isDownloading (fst (getFilters s) ! i) = isDownloading (cache_filters s ! i)"
    by (simp_all add: nth mergeFilter_fields)
  show "case filtersVersionInfo s (filterId (cache_filters s ! i)) of
              None \<Rightarrow> version (fst (getFilters s) ! i) = version (cache_filters s ! i)
                \<and> lastCheckTime (fst (getFilters s) ! i) = lastCheckTime (cache_filters s ! i)
                \<and> lastUpdateTime (fst (getFilters s) ! i) = lastUpdateTime (cache_filters s ! i)
            | Some vi \<Rightarrow> version (fst (getFilters s) ! i) = vi_version vi
                \<and> lastCheckTime (fst (getFilters s) ! i) = vi_lastCheckTime vi
                \<and> lastUpdateTime (fst (getFilters s) ! i) = vi_lastUpdateTime vi"
    unfolding nth by (rule mergeFilter_version)
  show "case filtersStateInfo s (filterId (cache_filters s ! i)) of
              None \<Rightarrow> enabled (fst (getFilters s) ! i) = enabled (cache_filters s ! i)
                \<and> installed (fst (getFilters s) ! i) = installed (cache_filters s ! i)
                \<and> loaded (fst (getFilters s) ! i) = loaded (cache_filters s ! i)
            | Some si \<Rightarrow> enabled (fst (getFilters s) ! i) = si_enabled si
                \<and> installed (fst (getFilters s) ! i) = si_installed si
                \<and> loaded (fst (getFilters s) ! i) = si_loaded si"
    unfolding nth by (rule mergeFilter_state)
next
  show "snd (getFilters s) = s\<lparr>cache_filters := fst (getFilters s)\<rparr>"
    by (simp add: getFilters_def Let_def)
  show "fst (getGroups s) = None" by (simp add: getGroups_def)
  show "length (cache_groups (snd (getGroups s))) = length (cache_groups s)"
    by (simp add: getGroups_def)
  show "snd (getGroups s) = s\<lparr>cache_groups := cache_groups (snd (getGroups s))\<rparr>"
    by (simp add: getGroups_def)
next
  fix i assume i: "i < length (cache_groups s)"
  then have nth: "cache_groups (snd (getGroups s)) ! i = mergeGroup s (cache_groups s ! i)"
    by (simp add: getGroups_def)
  show "g_groupId (cache_groups (snd (getGroups s)) ! i) = g_groupId (cache_groups s ! i)"
    by (simp add: nth mergeGroup_fields)
  show "g_enabled (cache_groups (snd (getGroups s)) ! i) =
            (case groupsStateInfo s (g_groupId (cache_groups s ! i)) of
               None \<Rightarrow> g_enabled (cache_groups s ! i)
             | Some gi \<Rightarrow> gs_enabled gi)"
    by (simp add: nth mergeGroup_fields)
qed

text \<open>
  \<open>getGroups\<close> does not return the merged collection: on the small installation the
  merged groups are in the registry and the value returned is \<open>undefined\<close>.
\<close>
theorem getGroups_returns_counterexample:
  "fst (getGroups ex_state) = None
   \<and> fst (getGroups ex_state) \<noteq> Some [\<lparr>g_groupId = 1, g_enabled = Some True\<rparr>]
   \<and> cache_groups (snd (getGroups ex_state)) = [\<lparr>g_groupId = 1, g_enabled = Some True\<rparr>]"
  by (simp add: getGroups_def ex_state_def ex_group_def mergeGroup_def)

theorem getFilters_getGroups_merge_witness:
  "(0::nat) < length (cache_filters ex_state)
   \<and> filtersStateInfo ex_state (filterId (cache_filters ex_state ! 0))
       = Some \<lparr>si_enabled = True, si_installed = True, si_loaded = True\<rparr>
   \<and> enabled (fst (getFilters ex_state) ! 0) \<and> \<not> enabled (cache_filters ex_state ! 0)
   \<and> filtersStateInfo (snd (getFilters ex_state)) = filtersStateInfo ex_state
   \<and> fst (getGroups ex_state) = None"
proof -
  have a: "(0::nat) < length (cache_filters ex_state)" by (simp add: ex_state_def)
  have b: "filtersStateInfo ex_state (filterId (cache_filters ex_state ! 0))
       = Some \<lparr>si_enabled = True, si_installed = True, si_loaded = True\<rparr>"
    by (simp add: ex_state_def ex_filter_def)
  have c: "\<not> enabled (cache_filters ex_state ! 0)" by (simp add: ex_state_def ex_filter_def)
  note t = getFilters_getGroups_merge [of ex_state]
  from t a b have d: "enabled (fst (getFilters ex_state) ! 0)" by auto
  from t have e: "snd (getFilters ex_state) = ex_state\<lparr>cache_filters := fst (getFilters ex_state)\<rparr>"
    by blast
  have f: "filtersStateInfo (snd (getFilters ex_state)) = filtersStateInfo ex_state"
    by (subst e) simp
  from t have g: "fst (getGroups ex_state) = None" by blast
  from a b c d f g show ?thesis by blast
qed


section \<open>Selection of the filters to update\<close>

lemma selectLoop_eq:
  "selectLoop env force p fs =
     map filterId (filter (\<lambda>f. \<not> truthy_str (customUrl f) \<and> installed f \<and> enabled f
        \<and> (force \<or> \<not> truthy_num (lastCheckTime f)
            \<or> (\<exists>t. lastCheckTime f = Some t \<and> dateNow env - t \<ge> p))) fs)"
  by (induction fs) (auto simp: needUpdate_def split: option.splits)

lemma find_by_id: "(\<exists>y. find (\<lambda>x. filterId x = k) xs = Some y) = (k \<in> filterId ` set xs)"
  by (induction xs) auto

text \<open>
  C5. The built-in identifiers that \<open>selectFilterIdsToUpdate\<close> returns are those of the
  candidates (the optional subset when supplied, the registry's filters otherwise) that
  are not custom, are installed and enabled, and for which \<open>forceUpdate\<close> holds, or there
  is no \<open>lastCheckTime\<close> (undefined, or the falsy 0), or the time since \<open>lastCheckTime\<close> is
  at least the update period of the settings in milliseconds. The custom identifiers are
  those of the custom filter store that are enabled and, when the subset is supplied,
  occur in it. A filter checked 30 minutes ago under a period of one hour is left out
  without \<open>forceUpdate\<close> and selected with it.
\<close>
theorem selectFilterIdsToUpdate_eligible:
  "filterIds (selectFilterIdsToUpdate env force sub s) =
     map filterId
       (filter (\<lambda>f. \<not> truthy_str (customUrl f) \<and> installed f \<and> enabled f
                  \<and> (force \<or> \<not> truthy_num (lastCheckTime f)
                      \<or> (\<exists>t. lastCheckTime f = Some t
                            \<and> dateNow env - t \<ge> updateFiltersPeriod s * 60 * 60 * 1000)))
          (case sub of None \<Rightarrow> cache_filters s | Some xs \<Rightarrow> xs))
   \<and> customFilterIds (selectFilterIdsToUpdate env force sub s) =
       map filterId
         (filter (\<lambda>f. enabled f
                    \<and> (case sub of None \<Rightarrow> True | Some xs \<Rightarrow> filterId f \<in> filterId ` set xs))
            (customFilterStore s))
   \<and> (\<not> truthy_str (customUrl f) \<and> installed f \<and> enabled f
        \<and> lastCheckTime f = Some (dateNow env - 30 * 60 * 1000)
        \<and> dateNow env > 30 * 60 * 1000
        \<and> updateFiltersPeriod s = 1 \<longrightarrow>
        filterIds (selectFilterIdsToUpdate env False (Some [f]) s) = []
        \<and> filterIds (selectFilterIdsToUpdate env True (Some [f]) s) = [filterId f]
        \<and> filterIds (selectFilterIdsToUpdate env False None (s\<lparr>cache_filters := [f]\<rparr>)) = []
        \<and> filterIds (selectFilterIdsToUpdate env True None (s\<lparr>cache_filters := [f]\<rparr>))
             = [filterId f])"
proof (intro conjI impI)
  show "filterIds (selectFilterIdsToUpdate env force sub s) =
     map filterId
       (filter (\<lambda>f. \<not> truthy_str (customUrl f) \<and> installed f \<and> enabled f
                  \<and> (force \<or> \<not> truthy_num (lastCheckTime f)
                      \<or> (\<exists>t. lastCheckTime f = Some t
                            \<and> dateNow env - t \<ge> updateFiltersPeriod s * 60 * 60 * 1000)))
          (case sub of None \<Rightarrow> cache_filters s | Some xs \<Rightarrow> xs))"
    by (simp add: selectFilterIdsToUpdate_def Let_def selectLoop_eq)
next
  have "filter (\<lambda>f. enabled f
                    \<and> (case sub of None \<Rightarrow> True | Some xs \<Rightarrow> filterId f \<in> filterId ` set xs))
            (customFilterStore s)
      = filter enabled (filter (\<lambda>f. case sub of None \<Rightarrow> True
                               | Some xs \<Rightarrow> find (\<lambda>x. filterId x = filterId f) xs \<noteq> None)
                    (customFilterStore s))"
    by (cases sub) (simp_all add: find_by_id conj_commute)
  then show "customFilterIds (selectFilterIdsToUpdate env force sub s) =
       map filterId
         (filter (\<lambda>f. enabled f
                    \<and> (case sub of None \<Rightarrow> True | Some xs \<Rightarrow> filterId f \<in> filterId ` set xs))
            (customFilterStore s))"
    by (simp add: selectFilterIdsToUpdate_def Let_def)
next
  assume h: "\<not> truthy_str (customUrl f) \<and> installed f \<and> enabled f
        \<and> lastCheckTime f = Some (dateNow env - 30 * 60 * 1000)
        \<and> dateNow env > 30 * 60 * 1000
        \<and> updateFiltersPeriod s = 1"
  then show "filterIds (selectFilterIdsToUpdate env False (Some [f]) s) = []"
    by (simp add: selectFilterIdsToUpdate_def Let_def needUpdate_def truthy_num_def)
  from h show "filterIds (selectFilterIdsToUpdate env True (Some [f]) s) = [filterId f]"
    by (simp add: selectFilterIdsToUpdate_def Let_def needUpdate_def)
  from h show "filterIds (selectFilterIdsToUpdate env False None (s\<lparr>cache_filters := [f]\<rparr>)) = []"
    by (simp add: selectFilterIdsToUpdate_def Let_def needUpdate_def truthy_num_def)
  from h show "filterIds (selectFilterIdsToUpdate env True None (s\<lparr>cache_filters := [f]\<rparr>))
             = [filterId f]"
    by (simp add: selectFilterIdsToUpdate_def Let_def needUpdate_def)
qed


theorem selectFilterIdsToUpdate_eligible_witness:
  "\<not> truthy_str (customUrl (ex_recent 30)) \<and> installed (ex_recent 30) \<and> enabled (ex_recent 30)
   \<and> lastCheckTime (ex_recent 30) = Some (dateNow ex_env - 30 * 60 * 1000)
   \<and> dateNow ex_env > 30 * 60 * 1000
   \<and> updateFiltersPeriod ex_state = 1
   \<and> filterIds (selectFilterIdsToUpdate ex_env False (Some [ex_recent 30]) ex_state) = []
   \<and> filterIds (selectFilterIdsToUpdate ex_env True (Some [ex_recent 30]) ex_state) = [1]"
proof -
  have h: "\<not> truthy_str (customUrl (ex_recent 30)) \<and> installed (ex_recent 30)
      \<and> enabled (ex_recent 30)
      \<and> lastCheckTime (ex_recent 30) = Some (dateNow ex_env - 30 * 60 * 1000)
      \<and> dateNow ex_env > 30 * 60 * 1000
      \<and> updateFiltersPeriod ex_state = 1"
    by (simp add: ex_recent_def ex_filter_def ex_env_def ex_state_def truthy_str_def)
  have i: "filterId (ex_recent 30) = 1" by (simp add: ex_recent_def ex_filter_def)
  from selectFilterIdsToUpdate_eligible
         [where f = "ex_recent 30" and env = ex_env and s = ex_state] h
  have r: "filterIds (selectFilterIdsToUpdate ex_env False (Some [ex_recent 30]) ex_state) = []
     \<and> filterIds (selectFilterIdsToUpdate ex_env True (Some [ex_recent 30]) ex_state)
          = [filterId (ex_recent 30)]"
    by blast
  from h r show ?thesis unfolding i by blast
qed


section \<open>The skip window\<close>

text \<open>
  C7. \<open>checkFilterUpdate\<close> leaves the state as it is (no request, no notification, no
  write) when the filter is disabled or less than five minutes have passed since its
  \<open>lastCheckTime\<close>; otherwise it is \<open>checkAntiBannerFiltersUpdate\<close> with \<open>forceUpdate\<close> true
  and the filter as the only candidate. A filter checked two minutes ago is skipped.
\<close>
theorem checkFilterUpdate_skip_window:
  "(\<not> enabled f \<or> (\<exists>t. lastCheckTime f = Some t \<and> dateNow env - t < 5 * 60 * 1000)
      \<longrightarrow> checkFilterUpdate env f s = s
          \<and> filter is_network_request
                (drop (length (trace s)) (trace (checkFilterUpdate env f s))) = [])
   \<and> (enabled f \<and> \<not> (\<exists>t. lastCheckTime f = Some t \<and> dateNow env - t < 5 * 60 * 1000)
      \<longrightarrow> checkFilterUpdate env f s = checkAntiBannerFiltersUpdate env True (Some [f]) s)
   \<and> (lastCheckTime f = Some (dateNow env - 2 * 60 * 1000) \<longrightarrow> checkFilterUpdate env f s = s)"
  by (auto simp: checkFilterUpdate_def ENABLED_FILTERS_SKIP_TIMEOUT_def split: option.splits)

theorem checkFilterUpdate_skip_window_witness:
  "lastCheckTime (ex_recent 2) = Some (dateNow ex_env - 2 * 60 * 1000)
   \<and> checkFilterUpdate ex_env (ex_recent 2) ex_state = ex_state
   \<and> enabled (ex_recent 10)
   \<and> \<not> (\<exists>t. lastCheckTime (ex_recent 10) = Some t \<and> dateNow ex_env - t < 5 * 60 * 1000)
   \<and> checkFilterUpdate ex_env (ex_recent 10) ex_state =
       checkAntiBannerFiltersUpdate ex_env True (Some [ex_recent 10]) ex_state"
proof -
  have a: "lastCheckTime (ex_recent 2) = Some (dateNow ex_env - 2 * 60 * 1000)"
    by (simp add: ex_recent_def)
  have b: "enabled (ex_recent 10)" by (simp add: ex_recent_def)
  have c: "\<not> (\<exists>t. lastCheckTime (ex_recent 10) = Some t \<and> dateNow ex_env - t < 5 * 60 * 1000)"
    by (simp add: ex_recent_def)
  from checkFilterUpdate_skip_window [of "ex_recent 2" ex_env ex_state] a
  have d: "checkFilterUpdate ex_env (ex_recent 2) ex_state = ex_state" by blast
  from checkFilterUpdate_skip_window [of "ex_recent 10" ex_env ex_state] b c
  have e: "checkFilterUpdate ex_env (ex_recent 10) ex_state =
       checkAntiBannerFiltersUpdate ex_env True (Some [ex_recent 10]) ex_state" by blast
  from a b c d e show ?thesis by blast
qed

section \<open>Disabling filters\<close>

lemma withFilter_frame:
  "withFilter fid g evs s =
     s\<lparr>cache_filters := cache_filters (withFilter fid g evs s),
       trace := trace (withFilter fid g evs s)\<rparr>"
  by (simp add: withFilter_def split: option.splits)

lemma withFilter_trace:
  "trace (withFilter fid g evs s) =
     trace s @ (case cache_getFilter s fid of None \<Rightarrow> [] | Some f \<Rightarrow> map Notify (evs (g f)))"
  by (simp add: withFilter_def split: option.splits)

lemma withFilter_getFilter:
  "(\<And>x. filterId (g x) = filterId x) \<Longrightarrow>
   cache_getFilter (withFilter fid g evs s) k =
     (if k = fid then map_option g (cache_getFilter s fid) else cache_getFilter s k)"
  by (auto simp: withFilter_def cache_getFilter_def find_modifyFilter split: option.splits)

lemma withFilter_other [simp]:
  "filtersStateInfo (withFilter fid g evs s) = filtersStateInfo s"
  "filtersVersionInfo (withFilter fid g evs s) = filtersVersionInfo s"
  "groupsStateInfo (withFilter fid g evs s) = groupsStateInfo s"
  "cache_groups (withFilter fid g evs s) = cache_groups s"
  "customFilterStore (withFilter fid g evs s) = customFilterStore s"
  "updateFiltersPeriod (withFilter fid g evs s) = updateFiltersPeriod s"
  "storage (withFilter fid g evs s) = storage s"
  by (simp_all add: withFilter_def split: option.splits)

lemma isFilterEnabled_withFilter:
  "(\<And>x. filterId (g x) = filterId x) \<Longrightarrow>
   isFilterEnabled (withFilter fid g evs s) k = isFilterEnabled s k"
  by (auto simp: isFilterEnabled_def withFilter_getFilter split: option.splits)

lemma isFilterEnabled_Some: "isFilterEnabled s k \<Longrightarrow> \<exists>f. cache_getFilter s k = Some f"
  by (auto simp: isFilterEnabled_def split: option.splits)

lemma disableLoop_result:
  "distinct xs \<Longrightarrow>
   \<exists>s'. disableLoop xs s = Inr s'
     \<and> trace s' = trace s @
         map (\<lambda>i. Notify (FILTER_ENABLE_DISABLE ((the (cache_getFilter s i))\<lparr>enabled := False\<rparr>)))
           (takeWhile (isFilterEnabled s) xs)
     \<and> (\<forall>k. cache_getFilter s' k =
           (if k \<in> set (takeWhile (isFilterEnabled s) xs)
            then map_option (\<lambda>f. f\<lparr>enabled := False\<rparr>) (cache_getFilter s k)
            else cache_getFilter s k))
     \<and> s' = s\<lparr>cache_filters := cache_filters s', trace := trace s'\<rparr>"
proof (induction xs arbitrary: s)
  case Nil
  then show ?case by simp
next
  case (Cons x xs)
  show ?case
  proof (cases "isFilterEnabled s x")
    case False
    then show ?thesis by simp
  next
    case True
    then obtain f where f: "cache_getFilter s x = Some f"
      using isFilterEnabled_Some by blast
    let ?g = "\<lambda>y. y\<lparr>enabled := False\<rparr>"
    let ?s1 = "withFilter x ?g (\<lambda>y. [FILTER_ENABLE_DISABLE y]) s"
    have en: "isFilterEnabled ?s1 = isFilterEnabled s"
      by (rule ext) (simp add: isFilterEnabled_withFilter)
    have get: "\<And>k. cache_getFilter ?s1 k =
        (if k = x then Some (?g f) else cache_getFilter s k)"
      by (simp add: withFilter_getFilter f)
    have tr: "trace ?s1 = trace s @ [Notify (FILTER_ENABLE_DISABLE (?g f))]"
      by (simp add: withFilter_trace f)
    from Cons.prems have d: "distinct xs" and nx: "x \<notin> set xs" by simp_all
    from Cons.IH [OF d, of ?s1] obtain s' where
      r: "disableLoop xs ?s1 = Inr s'"
      and t: "trace s' = trace ?s1 @
         map (\<lambda>i. Notify (FILTER_ENABLE_DISABLE ((the (cache_getFilter ?s1 i))\<lparr>enabled := False\<rparr>)))
           (takeWhile (isFilterEnabled ?s1) xs)"
      and c: "\<forall>k. cache_getFilter s' k =
           (if k \<in> set (takeWhile (isFilterEnabled ?s1) xs)
            then map_option ?g (cache_getFilter ?s1 k)
            else cache_getFilter ?s1 k)"
      and fr: "s' = ?s1\<lparr>cache_filters := cache_filters s', trace := trace s'\<rparr>"
      by blast
    have nt: "x \<notin> set (takeWhile (isFilterEnabled s) xs)"
      using nx set_takeWhileD by fastforce
    have m: "map (\<lambda>i. Notify (FILTER_ENABLE_DISABLE ((the (cache_getFilter ?s1 i))\<lparr>enabled := False\<rparr>)))
           (takeWhile (isFilterEnabled s) xs)
        = map (\<lambda>i. Notify (FILTER_ENABLE_DISABLE ((the (cache_getFilter s i))\<lparr>enabled := False\<rparr>)))
           (takeWhile (isFilterEnabled s) xs)"
      using nt by (intro map_cong refl) (auto simp: get)
    have 1: "disableLoop (x # xs) s = Inr s'"
      using True f r by simp
    have 2: "trace s' = trace s @
         map (\<lambda>i. Notify (FILTER_ENABLE_DISABLE ((the (cache_getFilter s i))\<lparr>enabled := False\<rparr>)))
           (takeWhile (isFilterEnabled s) (x # xs))"
      using t True by (simp add: en tr m f)
    have 3: "\<forall>k. cache_getFilter s' k =
           (if k \<in> set (takeWhile (isFilterEnabled s) (x # xs))
            then map_option ?g (cache_getFilter s k)
            else cache_getFilter s k)"
      using c nt True by (auto simp: en get f)
    have "?s1 = s\<lparr>cache_filters := cache_filters ?s1, trace := trace ?s1\<rparr>"
      by (rule withFilter_frame)
    with fr have 4: "s' = s\<lparr>cache_filters := cache_filters s', trace := trace s'\<rparr>"
      by (metis (no_types, lifting) state.surjective state.update_convs(1) state.update_convs(9))
    from 1 2 3 4 show ?thesis by blast
  qed
qed


lemma cache_getFilter_id: "cache_getFilter s i = Some f \<Longrightarrow> filterId f = i"
  by (auto simp: cache_getFilter_def find_Some_iff)

text \<open>
  C6. \<open>disableFilters\<close> goes through the de-duplicated identifiers in order. When \<open>x\<close> is
  the first of them whose filter is not enabled, exactly the identifiers before \<open>x\<close> are
  disabled, each with one \<open>FILTER_ENABLE_DISABLE\<close> in that order, and the loop ends there:
  \<open>x\<close> and every later identifier keep their filter as it was and get no notification,
  whether or not the later filter is enabled.
\<close>
theorem disableFilters_stops_at_first_not_enabled:
  assumes "removeDuplicates ids = pre @ x # post"
    and "\<forall>i\<in>set pre. isFilterEnabled s i"
    and "\<not> isFilterEnabled s x"
  shows "\<exists>s'. disableFilters ids s = Inr s'
     \<and> trace s' = trace s @
         map (\<lambda>i. Notify (FILTER_ENABLE_DISABLE ((the (cache_getFilter s i))\<lparr>enabled := False\<rparr>))) pre
     \<and> (\<forall>i\<in>set pre. cache_getFilter s' i =
           map_option (\<lambda>f. f\<lparr>enabled := False\<rparr>) (cache_getFilter s i))
     \<and> (\<forall>y\<in>set (x # post). cache_getFilter s' y = cache_getFilter s y
           \<and> (\<forall>f. Notify (FILTER_ENABLE_DISABLE f) \<in> set (drop (length (trace s)) (trace s'))
                 \<longrightarrow> filterId f \<noteq> y))"
proof -
  have d: "distinct (pre @ x # post)"
    using distinct_removeDuplicates [of ids] assms(1) by simp
  have tw: "takeWhile (isFilterEnabled s) (pre @ x # post) = pre"
    using assms(2,3) by (simp add: takeWhile_append2)
  from disableLoop_result [OF d, of s] obtain s' where
    r: "disableLoop (pre @ x # post) s = Inr s'"
    and t: "trace s' = trace s @
         map (\<lambda>i. Notify (FILTER_ENABLE_DISABLE ((the (cache_getFilter s i))\<lparr>enabled := False\<rparr>))) pre"
    and c: "\<forall>k. cache_getFilter s' k =
           (if k \<in> set pre then map_option (\<lambda>f. f\<lparr>enabled := False\<rparr>) (cache_getFilter s k)
            else cache_getFilter s k)"
    unfolding tw by blast
  have 1: "disableFilters ids s = Inr s'"
    using r assms(1) by (simp add: disableFilters_def)
  have 3: "\<forall>i\<in>set pre. cache_getFilter s' i =
           map_option (\<lambda>f. f\<lparr>enabled := False\<rparr>) (cache_getFilter s i)"
    using c by simp
  have 4: "\<forall>y\<in>set (x # post). cache_getFilter s' y = cache_getFilter s y
           \<and> (\<forall>f. Notify (FILTER_ENABLE_DISABLE f) \<in> set (drop (length (trace s)) (trace s'))
                 \<longrightarrow> filterId f \<noteq> y)"
  proof (intro ballI conjI allI impI)
    fix y assume y: "y \<in> set (x # post)"
    then have ny: "y \<notin> set pre" using d by auto
    then show "cache_getFilter s' y = cache_getFilter s y" using c by simp
    fix f assume "Notify (FILTER_ENABLE_DISABLE f) \<in> set (drop (length (trace s)) (trace s'))"
    then obtain i where i: "i \<in> set pre"
      and f: "f = (the (cache_getFilter s i))\<lparr>enabled := False\<rparr>"
      using t by auto
    from i assms(2) obtain f0 where "cache_getFilter s i = Some f0"
      using isFilterEnabled_Some by blast
    then have "filterId f = i" using f cache_getFilter_id by fastforce
    with i ny show "filterId f \<noteq> y" by blast
  qed
  from 1 t 3 4 show ?thesis by blast
qed

theorem disableFilters_stops_at_first_not_enabled_witness:
  "removeDuplicates [1, 2, 1, 3] = [1] @ 2 # [3]
   \<and> isFilterEnabled ex_state 1
   \<and> \<not> isFilterEnabled ex_state 2
   \<and> isFilterEnabled ex_state 3
   \<and> (\<exists>s'. disableFilters [1, 2, 1, 3] ex_state = Inr s'
        \<and> trace s' = [Notify (FILTER_ENABLE_DISABLE (ex_filter 1))]
        \<and> cache_getFilter s' 3 = cache_getFilter ex_state 3)"
proof -
  have a: "removeDuplicates [1, 2, 1, 3] = [1] @ 2 # [3]" by simp
  have b: "\<forall>i\<in>set [1]. isFilterEnabled ex_state i"
    by (simp add: isFilterEnabled_def cache_getFilter_def ex_state_def ex_filter_def)
  have c: "\<not> isFilterEnabled ex_state 2"
    by (simp add: isFilterEnabled_def cache_getFilter_def ex_state_def ex_filter_def)
  have e: "isFilterEnabled ex_state 3"
    by (simp add: isFilterEnabled_def cache_getFilter_def ex_state_def ex_filter_def)
  have g: "(the (cache_getFilter ex_state 1))\<lparr>enabled := False\<rparr> = ex_filter 1"
    by (simp add: cache_getFilter_def ex_state_def ex_filter_def)
  have t: "trace ex_state = []" by (simp add: ex_state_def)
  from disableFilters_stops_at_first_not_enabled [OF a b c]
  obtain s' where "disableFilters [1, 2, 1, 3] ex_state = Inr s'"
    "trace s' = [Notify (FILTER_ENABLE_DISABLE (ex_filter 1))]"
    "cache_getFilter s' 3 = cache_getFilter ex_state 3"
    using g t by auto
  with a b c e show ?thesis by auto
qed

text \<open>
  C1, in the form that holds of the code. For an identifier that is not in the registry, \<open>disableFilters\<close> does
  not throw and publishes nothing for it (whatever list it occurs in; every notification
  of the call is a \<open>FILTER_ENABLE_DISABLE\<close> of another filter), and \<open>disableFilters\<close> of
  that identifier alone changes nothing. \<open>enableFilter\<close> publishes nothing either but
  throws a \<open>TypeError\<close>, and \<open>addAndEnableFilters\<close>, through which it is reached, throws at
  \<open>getFilterById\<close> before it.
\<close>
theorem absent_filter_enable_throws_disable_silent:
  assumes "cache_getFilter s fid = None"
  shows "enableFilter env fid s = Inl (TypeError, s)
     \<and> addAndEnableFilters env (Some [fid]) s = Inl (FilterNotFound fid, s)
     \<and> disableFilters [fid] s = Inr s
     \<and> (\<exists>s'. disableFilters ids s = Inr s' \<and> cache_getFilter s' fid = None
          \<and> (\<forall>e \<in> set (drop (length (trace s)) (trace s')).
                \<exists>f. e = Notify (FILTER_ENABLE_DISABLE f) \<and> filterId f \<noteq> fid))"
proof -
  have ne: "\<not> isFilterEnabled s fid" using assms by (simp add: isFilterEnabled_def)
  have 1: "enableFilter env fid s = Inl (TypeError, s)"
    using assms by (simp add: enableFilter_def)
  have 2: "addAndEnableFilters env (Some [fid]) s = Inl (FilterNotFound fid, s)"
    using assms by (simp add: addAndEnableFilters_def addAntiBannerFilter_def getFilterById_def)
  have 3: "disableFilters [fid] s = Inr s"
    using ne by (simp add: disableFilters_def)
  let ?pre = "takeWhile (isFilterEnabled s) (removeDuplicates ids)"
  from disableLoop_result [OF distinct_removeDuplicates, of ids s] obtain s' where
    r: "disableFilters ids s = Inr s'"
    and t: "trace s' = trace s @
         map (\<lambda>i. Notify (FILTER_ENABLE_DISABLE ((the (cache_getFilter s i))\<lparr>enabled := False\<rparr>))) ?pre"
    and c: "\<forall>k. cache_getFilter s' k =
           (if k \<in> set ?pre then map_option (\<lambda>f. f\<lparr>enabled := False\<rparr>) (cache_getFilter s k)
            else cache_getFilter s k)"
    unfolding disableFilters_def by blast
  have n: "cache_getFilter s' fid = None" using c assms by simp
  have "\<forall>e \<in> set (drop (length (trace s)) (trace s')).
                \<exists>f. e = Notify (FILTER_ENABLE_DISABLE f) \<and> filterId f \<noteq> fid"
  proof
    fix e assume "e \<in> set (drop (length (trace s)) (trace s'))"
    then obtain i where i: "i \<in> set ?pre"
      and e: "e = Notify (FILTER_ENABLE_DISABLE ((the (cache_getFilter s i))\<lparr>enabled := False\<rparr>))"
      using t by auto
    from i have en: "isFilterEnabled s i" using set_takeWhileD by fastforce
    then obtain f0 where f0: "cache_getFilter s i = Some f0"
      using isFilterEnabled_Some by blast
    then have "filterId f0 = i" by (rule cache_getFilter_id)
    moreover have "i \<noteq> fid" using en ne by auto
    ultimately show "\<exists>f. e = Notify (FILTER_ENABLE_DISABLE f) \<and> filterId f \<noteq> fid"
      using e f0 by simp
  qed
  with 1 2 3 r n show ?thesis by blast
qed

text \<open>\<open>enableFilter\<close> with an identifier that the registry does not know throws.\<close>
theorem enableFilter_absent_counterexample:
  "cache_getFilter ex_state 99 = None
   \<and> enableFilter ex_env 99 ex_state = Inl (TypeError, ex_state)"
  by (simp add: enableFilter_def cache_getFilter_def ex_state_def ex_filter_def ex_custom_def
      ex_custom_b_def)

theorem absent_filter_enable_throws_disable_silent_witness:
  "cache_getFilter ex_state 99 = None
   \<and> enableFilter ex_env 99 ex_state = Inl (TypeError, ex_state)
   \<and> disableFilters [99] ex_state = Inr ex_state
   \<and> (\<exists>s'. disableFilters [1, 99, 3] ex_state = Inr s' \<and> cache_getFilter s' 99 = None)"
proof -
  have a: "cache_getFilter ex_state 99 = None"
    by (simp add: cache_getFilter_def ex_state_def ex_filter_def ex_custom_def ex_custom_b_def)
  from absent_filter_enable_throws_disable_silent [OF a, of ex_env "[1, 99, 3]"] a
  show ?thesis by blast
qed

section \<open>Installing and enabling filters\<close>

lemma enableGroup_frame [simp]:
  "cache_filters (enableGroup gid s) = cache_filters s"
  by (simp add: enableGroup_def notifyListeners_def split: option.splits)

lemma cache_getFilter_cong:
  "cache_filters s = cache_filters s' \<Longrightarrow> cache_getFilter s k = cache_getFilter s' k"
  by (simp add: cache_getFilter_def)

lemma request_getFilter [simp]: "cache_getFilter (request e s) k = cache_getFilter s k"
  by (simp add: request_def cache_getFilter_def)

lemma request_trace [simp]: "trace (request e s) = trace s @ [e]"
  by (simp add: request_def)

lemma enableFilter_present:
  assumes "cache_getFilter s x = Some f"
  shows "\<exists>s2. enableFilter env x s = Inr s2
     \<and> (\<forall>k. k \<noteq> x \<longrightarrow> cache_getFilter s2 k = cache_getFilter s k)
     \<and> cache_getFilter s2 x = Some (f\<lparr>enabled := True\<rparr>)"
proof -
  let ?s1 = "withFilter x (\<lambda>y. y\<lparr>enabled := True\<rparr>) (\<lambda>y. []) s"
  have g1: "\<And>k. cache_getFilter ?s1 k = (if k = x then Some (f\<lparr>enabled := True\<rparr>) else cache_getFilter s k)"
    by (simp add: withFilter_getFilter assms)
  define s2 where "s2 = (if \<not> groupHasEnabledStatus ?s1 (groupId f) then enableGroup (groupId f) ?s1
                    else if x = SEARCH_AND_SELF_PROMO_FILTER_ID env
                            \<or> groupId f = CUSTOM_FILTERS_GROUP_ID env then enableGroup (groupId f) ?s1
                    else ?s1)"
  have "cache_filters s2 = cache_filters ?s1" by (simp add: s2_def)
  then have g2: "\<And>k. cache_getFilter s2 k = cache_getFilter ?s1 k"
    by (rule cache_getFilter_cong)
  let ?s3 = "withFilter x (\<lambda>y. y) (\<lambda>y. [FILTER_ENABLE_DISABLE y]) s2"
  have g3: "\<And>k. cache_getFilter ?s3 k = cache_getFilter s2 k"
    by (auto simp: withFilter_getFilter option.map_ident)
  have "enableFilter env x s = Inr ?s3"
    using assms by (simp add: enableFilter_def s2_def Let_def)
  then show ?thesis using g1 g2 g3 by simp
qed

lemma addAntiBannerFilter_present:
  assumes "cache_getFilter s x = Some f"
  shows "\<exists>s1 f1. addAntiBannerFilter env x s =
            Inr (installed f \<or> loaded f \<or> loadFilterRulesResponse env x False \<noteq> RulesFailed, s1)
     \<and> (\<forall>k. k \<noteq> x \<longrightarrow> cache_getFilter s1 k = cache_getFilter s k)
     \<and> cache_getFilter s1 x = Some f1 \<and> enabled f1 = enabled f"
proof -
  have id: "filterId f = x" using assms by (rule cache_getFilter_id)
  show ?thesis
  proof (cases "installed f")
    case True
    then show ?thesis using assms by (simp add: addAntiBannerFilter_def getFilterById_def)
  next
    case ni: False
    show ?thesis
    proof (cases "loaded f")
      case True
      then show ?thesis using assms ni
        by (simp add: addAntiBannerFilter_def getFilterById_def onFilterLoaded_def
            withFilter_getFilter)
    next
      case nl: False
      show ?thesis
      proof (cases "loadFilterRulesResponse env x False")
        case (RulesLoaded rules t)
        then show ?thesis using assms ni nl id
          by (simp add: addAntiBannerFilter_def getFilterById_def onFilterLoaded_def
            loadFilterRules_request_def loadFilterRules_response_def withFilter_getFilter)
      next
        case RulesFailed
        then show ?thesis using assms ni nl id
          by (simp add: addAntiBannerFilter_def getFilterById_def onFilterLoaded_def
            loadFilterRules_request_def loadFilterRules_response_def withFilter_getFilter)
      qed
    qed
  qed
qed

lemma loadNextFilter_all_present:
  "distinct xs \<Longrightarrow> \<forall>i\<in>set xs. cache_getFilter s i \<noteq> None \<Longrightarrow>
   \<exists>s'. loadNextFilter env xs s = Inr s'
     \<and> (\<forall>k. k \<notin> set xs \<longrightarrow> cache_getFilter s' k = cache_getFilter s k)
     \<and> (\<forall>i\<in>set xs. \<exists>f f'. cache_getFilter s i = Some f \<and> cache_getFilter s' i = Some f'
           \<and> enabled f' = (enabled f \<or> installed f \<or> loaded f
                \<or> loadFilterRulesResponse env i False \<noteq> RulesFailed))"
proof (induction xs arbitrary: s)
  case Nil
  then show ?case by simp
next
  case (Cons x xs)
  from Cons.prems obtain f where f: "cache_getFilter s x = Some f" by auto
  let ?ok = "installed f \<or> loaded f \<or> loadFilterRulesResponse env x False \<noteq> RulesFailed"
  from addAntiBannerFilter_present [OF f, of env] obtain s1 f1 where
    a: "addAntiBannerFilter env x s = Inr (?ok, s1)"
    and a1: "\<forall>k. k \<noteq> x \<longrightarrow> cache_getFilter s1 k = cache_getFilter s k"
    and a2: "cache_getFilter s1 x = Some f1" "enabled f1 = enabled f"
    by blast
  obtain s2 f2 where
    b: "(if ?ok then enableFilter env x s1 else Inr s1) = Inr s2"
    and b1: "\<forall>k. k \<noteq> x \<longrightarrow> cache_getFilter s2 k = cache_getFilter s k"
    and b2: "cache_getFilter s2 x = Some f2" "enabled f2 = (enabled f \<or> ?ok)"
  proof (cases ?ok)
    case True
    from enableFilter_present [OF a2(1), of env] obtain s2 where
      "enableFilter env x s1 = Inr s2"
      "\<forall>k. k \<noteq> x \<longrightarrow> cache_getFilter s2 k = cache_getFilter s1 k"
      "cache_getFilter s2 x = Some (f1\<lparr>enabled := True\<rparr>)"
      by blast
    with True a1 show ?thesis by (intro that [of s2 "f1\<lparr>enabled := True\<rparr>"]) auto
  next
    case False
    with a1 a2 show ?thesis by (intro that [of s1 f1]) auto
  qed
  from Cons.prems have d: "distinct xs" and nx: "x \<notin> set xs" by simp_all
  have pres: "\<forall>i\<in>set xs. cache_getFilter s2 i \<noteq> None"
    using Cons.prems(2) b1 nx by auto
  from Cons.IH [OF d pres] obtain s' where
    r: "loadNextFilter env xs s2 = Inr s'"
    and r1: "\<forall>k. k \<notin> set xs \<longrightarrow> cache_getFilter s' k = cache_getFilter s2 k"
    and r2: "\<forall>i\<in>set xs. \<exists>f f'. cache_getFilter s2 i = Some f \<and> cache_getFilter s' i = Some f'
           \<and> enabled f' = (enabled f \<or> installed f \<or> loaded f
                \<or> loadFilterRulesResponse env i False \<noteq> RulesFailed)"
    by blast
  have 1: "loadNextFilter env (x # xs) s = Inr s'"
    using a b r by (auto split: if_splits)
  have 2: "\<forall>k. k \<notin> set (x # xs) \<longrightarrow> cache_getFilter s' k = cache_getFilter s k"
    using r1 b1 by simp
  have 3: "\<forall>i\<in>set (x # xs). \<exists>f f'. cache_getFilter s i = Some f \<and> cache_getFilter s' i = Some f'
           \<and> enabled f' = (enabled f \<or> installed f \<or> loaded f
                \<or> loadFilterRulesResponse env i False \<noteq> RulesFailed)"
  proof
    fix i assume "i \<in> set (x # xs)"
    then consider "i = x" | "i \<in> set xs" "i \<noteq> x" using nx by auto
    then show "\<exists>f f'. cache_getFilter s i = Some f \<and> cache_getFilter s' i = Some f'
           \<and> enabled f' = (enabled f \<or> installed f \<or> loaded f
                \<or> loadFilterRulesResponse env i False \<noteq> RulesFailed)"
    proof cases
      case 1
      then have "cache_getFilter s' i = Some f2" using r1 nx b2 by simp
      with 1 f b2 show ?thesis by auto
    next
      case 2
      with r2 b1 show ?thesis by auto
    qed
  qed
  from 1 2 3 show ?case by blast
qed


lemma addAntiBannerFilter_failed:
  assumes "addAntiBannerFilter env fid s = Inr (False, s1)"
  shows "\<exists>f. cache_getFilter s fid = Some f
     \<and> cache_getFilter s1 fid = Some (f\<lparr>isDownloading := False\<rparr>)
     \<and> trace s1 = trace s @
         [Notify (START_DOWNLOAD_FILTER (f\<lparr>isDownloading := True\<rparr>)),
          LoadFilterRules fid False,
          Notify (ERROR_DOWNLOAD_FILTER (f\<lparr>isDownloading := False\<rparr>))]"
proof -
  from assms obtain f where f: "cache_getFilter s fid = Some f"
    by (auto simp: addAntiBannerFilter_def getFilterById_def split: option.splits)
  have id: "filterId f = fid" using f by (rule cache_getFilter_id)
  from assms f have ni: "\<not> installed f" and nl: "\<not> loaded f"
    by (auto simp: addAntiBannerFilter_def getFilterById_def onFilterLoaded_def
        split: if_splits)
  from assms f ni nl id have rf: "loadFilterRulesResponse env fid False = RulesFailed"
    by (auto simp: addAntiBannerFilter_def getFilterById_def loadFilterRules_request_def
        loadFilterRules_response_def split: rules_response.splits)
  let ?sa = "withFilter fid (\<lambda>x. x\<lparr>isDownloading := True\<rparr>) (\<lambda>x. [START_DOWNLOAD_FILTER x]) s"
  let ?sb = "request (LoadFilterRules fid False) ?sa"
  let ?sc = "withFilter fid (\<lambda>x. x\<lparr>isDownloading := False\<rparr>) (\<lambda>x. [ERROR_DOWNLOAD_FILTER x]) ?sb"
  have gb: "cache_getFilter ?sb fid = Some (f\<lparr>isDownloading := True\<rparr>)"
    by (simp add: withFilter_getFilter f)
  have s1: "s1 = ?sc"
    using assms f ni nl id rf
    by (simp add: addAntiBannerFilter_def getFilterById_def loadFilterRules_request_def
        loadFilterRules_response_def onFilterLoaded_def)
  have c: "cache_getFilter ?sc fid = Some (f\<lparr>isDownloading := False\<rparr>)"
    by (simp add: withFilter_getFilter f)
  have t: "trace ?sc = trace s @
         [Notify (START_DOWNLOAD_FILTER (f\<lparr>isDownloading := True\<rparr>)),
          LoadFilterRules fid False,
          Notify (ERROR_DOWNLOAD_FILTER (f\<lparr>isDownloading := False\<rparr>))]"
    by (simp add: withFilter_trace withFilter_getFilter f)
  from f c t s1 show ?thesis by blast
qed

text \<open>
  C10. \<open>addAndEnableFilters\<close> does nothing for a null or an empty list. Otherwise it
  takes the de-duplicated identifiers one at a time, in order: when \<open>addAntiBannerFilter\<close>
  reports \<open>success = false\<close> for an identifier (its download was started and failed), that
  filter is not enabled and the loop goes on with the next identifier from the state the
  failure left; when it reports success the filter is enabled before the next identifier
  is taken. So for a list of registered identifiers the call never throws, and at its end
  each of them is enabled exactly when it was enabled before or its install succeeded
  (already installed, already loaded, or downloaded), whatever happened to the others.
\<close>
theorem addAndEnableFilters_continues_after_failure:
  "addAndEnableFilters env None s = Inr s
   \<and> addAndEnableFilters env (Some []) s = Inr s
   \<and> (ids \<noteq> [] \<longrightarrow>
        addAndEnableFilters env (Some ids) s = loadNextFilter env (removeDuplicates ids) s)
   \<and> (\<forall>s1. addAntiBannerFilter env fid s = Inr (False, s1) \<longrightarrow>
        loadNextFilter env (fid # rest) s = loadNextFilter env rest s1
        \<and> (\<exists>f. cache_getFilter s fid = Some f
              \<and> cache_getFilter s1 fid = Some (f\<lparr>isDownloading := False\<rparr>)
              \<and> trace s1 = trace s @
                  [Notify (START_DOWNLOAD_FILTER (f\<lparr>isDownloading := True\<rparr>)),
                   LoadFilterRules fid False,
                   Notify (ERROR_DOWNLOAD_FILTER (f\<lparr>isDownloading := False\<rparr>))]))
   \<and> (\<forall>s1. addAntiBannerFilter env fid s = Inr (True, s1) \<longrightarrow>
        loadNextFilter env (fid # rest) s =
          (case enableFilter env fid s1 of
             Inl e \<Rightarrow> Inl e
           | Inr s2 \<Rightarrow> loadNextFilter env rest s2))
   \<and> ((\<forall>i\<in>set ids. cache_getFilter s i \<noteq> None) \<longrightarrow>
        (\<exists>s'. addAndEnableFilters env (Some ids) s = Inr s'
           \<and> (\<forall>k. k \<notin> set ids \<longrightarrow> cache_getFilter s' k = cache_getFilter s k)
           \<and> (\<forall>i\<in>set ids. \<exists>f f'. cache_getFilter s i = Some f \<and> cache_getFilter s' i = Some f'
                 \<and> enabled f' = (enabled f \<or> installed f \<or> loaded f
                      \<or> loadFilterRulesResponse env i False \<noteq> RulesFailed))))"
proof (intro conjI allI impI)
  show "addAndEnableFilters env None s = Inr s" by (simp add: addAndEnableFilters_def)
  show "addAndEnableFilters env (Some []) s = Inr s" by (simp add: addAndEnableFilters_def)
next
  assume "ids \<noteq> []"
  then show "addAndEnableFilters env (Some ids) s = loadNextFilter env (removeDuplicates ids) s"
    by (simp add: addAndEnableFilters_def)
next
  fix s1 assume a: "addAntiBannerFilter env fid s = Inr (False, s1)"
  then show "loadNextFilter env (fid # rest) s = loadNextFilter env rest s1" by simp
  from a show "\<exists>f. cache_getFilter s fid = Some f
              \<and> cache_getFilter s1 fid = Some (f\<lparr>isDownloading := False\<rparr>)
              \<and> trace s1 = trace s @
                  [Notify (START_DOWNLOAD_FILTER (f\<lparr>isDownloading := True\<rparr>)),
                   LoadFilterRules fid False,
                   Notify (ERROR_DOWNLOAD_FILTER (f\<lparr>isDownloading := False\<rparr>))]"
    by (rule addAntiBannerFilter_failed)
next
  fix s1 assume "addAntiBannerFilter env fid s = Inr (True, s1)"
  then show "loadNextFilter env (fid # rest) s =
          (case enableFilter env fid s1 of
             Inl e \<Rightarrow> Inl e
           | Inr s2 \<Rightarrow> loadNextFilter env rest s2)"
    by simp
next
  assume p: "\<forall>i\<in>set ids. cache_getFilter s i \<noteq> None"
  show "\<exists>s'. addAndEnableFilters env (Some ids) s = Inr s'
           \<and> (\<forall>k. k \<notin> set ids \<longrightarrow> cache_getFilter s' k = cache_getFilter s k)
           \<and> (\<forall>i\<in>set ids. \<exists>f f'. cache_getFilter s i = Some f \<and> cache_getFilter s' i = Some f'
                 \<and> enabled f' = (enabled f \<or> installed f \<or> loaded f
                      \<or> loadFilterRulesResponse env i False \<noteq> RulesFailed))"
  proof (cases "ids = []")
    case True
    then show ?thesis by (simp add: addAndEnableFilters_def)
  next
    case False
    from p have "\<forall>i\<in>set (removeDuplicates ids). cache_getFilter s i \<noteq> None"
      by (simp add: set_removeDuplicates)
    from loadNextFilter_all_present [OF distinct_removeDuplicates this, of env]
    show ?thesis using False by (simp add: addAndEnableFilters_def set_removeDuplicates)
  qed
qed

theorem addAndEnableFilters_continues_after_failure_witness:
  "cache_getFilter ex_state 2 = Some (ex_filter 2)
   \<and> cache_getFilter ex_state 3 = Some (ex_filter 3)
   \<and> loadFilterRulesResponse ex_env 2 False = RulesFailed
   \<and> loadFilterRulesResponse ex_env 3 False \<noteq> RulesFailed
   \<and> (\<exists>s' f2 f3. addAndEnableFilters ex_env (Some [2, 3, 2]) ex_state = Inr s'
         \<and> cache_getFilter s' 2 = Some f2 \<and> \<not> enabled f2
         \<and> cache_getFilter s' 3 = Some f3 \<and> enabled f3)"
proof -
  have p: "\<forall>i\<in>set [2, 3, 2]. cache_getFilter ex_state i \<noteq> None"
    by (simp add: cache_getFilter_def ex_state_def ex_filter_def)
  have r2: "loadFilterRulesResponse ex_env 2 False = RulesFailed"
    and r3: "loadFilterRulesResponse ex_env 3 False \<noteq> RulesFailed"
    by (simp_all add: ex_env_def)
  have g2: "cache_getFilter ex_state 2 = Some (ex_filter 2)"
    and g3: "cache_getFilter ex_state 3 = Some (ex_filter 3)"
    by (simp_all add: cache_getFilter_def ex_state_def ex_filter_def)
  have e: "\<not> enabled (ex_filter 2)" "\<not> installed (ex_filter 2)" "\<not> loaded (ex_filter 2)"
    by (simp_all add: ex_filter_def)
  from addAndEnableFilters_continues_after_failure
         [where env = ex_env and s = ex_state and ids = "[2, 3, 2]"] p
  obtain s' where s': "addAndEnableFilters ex_env (Some [2, 3, 2]) ex_state = Inr s'"
    and all: "\<forall>i\<in>set [2, 3, 2]. \<exists>f f'. cache_getFilter ex_state i = Some f
                 \<and> cache_getFilter s' i = Some f'
                 \<and> enabled f' = (enabled f \<or> installed f \<or> loaded f
                      \<or> loadFilterRulesResponse ex_env i False \<noteq> RulesFailed)"
    by blast
  from all g2 r2 e obtain f2 where "cache_getFilter s' 2 = Some f2" "\<not> enabled f2"
    by fastforce
  moreover from all g3 r3 obtain f3 where "cache_getFilter s' 3 = Some f3" "enabled f3"
    by fastforce
  ultimately show ?thesis using g2 g3 r2 r3 s' by blast
qed

section \<open>Updating custom filters\<close>

lemma startCustomUpdates_eq:
  "startCustomUpdates ids s =
     (map (cache_getFilter s) ids,
      s\<lparr>trace := trace s @
           concat (map (\<lambda>i. [UpdateCustomFilter (cache_getFilter s i),
                             Notify (FILTER_ADD_REMOVE (cache_getFilter s i))]) ids)\<rparr>)"
proof (induction ids arbitrary: s)
  case Nil
  then show ?case by simp
next
  case (Cons i ids)
  let ?s1 = "notifyListeners (FILTER_ADD_REMOVE (cache_getFilter s i))
               (request (UpdateCustomFilter (cache_getFilter s i)) s)"
  have g: "\<And>k. cache_getFilter ?s1 k = cache_getFilter s k"
    by (simp add: cache_getFilter_def notifyListeners_def request_def)
  have s1: "?s1 = s\<lparr>trace := trace s @ [UpdateCustomFilter (cache_getFilter s i),
                             Notify (FILTER_ADD_REMOVE (cache_getFilter s i))]\<rparr>"
    by (simp add: notifyListeners_def request_def)
  show ?case
    by (simp add: Let_def Cons.IH [of ?s1] g) (simp add: s1)
qed

text \<open>
  C4. \<open>updateCustomFilters\<close> hands every identifier's filter to the custom filter
  update, one request each, and publishes a \<open>FILTER_ADD_REMOVE\<close> for each right after its
  request, whatever the outcome. The callback is always called, with exactly the filters
  whose update answered with an identifier, in the order of the answers; a filter whose
  update failed is left out and stops nothing. For an empty list the callback gets the
  empty list at once. Every update is assumed to be answered once.
\<close>

theorem updateCustomFilters_isolated:
  assumes "mset (customResponseOrder env (map (cache_getFilter s) customIds))
             = mset (map (cache_getFilter s) customIds)"
  shows "updateCustomFilters env [] s = ([], s)
   \<and> mset (fst (updateCustomFilters env customIds s)) =
        mset (filter (\<lambda>f. truthy_num (updateCustomFilterResponse env f))
                (map (cache_getFilter s) customIds))
   \<and> (customIds \<noteq> [] \<longrightarrow>
        fst (updateCustomFilters env customIds s) =
          filter (\<lambda>f. truthy_num (updateCustomFilterResponse env f))
            (customResponseOrder env (map (cache_getFilter s) customIds))
        \<and> snd (updateCustomFilters env customIds s) =
            s\<lparr>trace := trace s @
                 concat (map (\<lambda>i. [UpdateCustomFilter (cache_getFilter s i),
                                   Notify (FILTER_ADD_REMOVE (cache_getFilter s i))])
                           customIds)\<rparr>)
   \<and> (\<forall>i \<in> set customIds.
        Notify (FILTER_ADD_REMOVE (cache_getFilter s i))
          \<in> set (drop (length (trace s)) (trace (snd (updateCustomFilters env customIds s))))
        \<and> (cache_getFilter s i \<in> set (fst (updateCustomFilters env customIds s))
             \<longleftrightarrow> truthy_num (updateCustomFilterResponse env (cache_getFilter s i))))"
proof (intro conjI impI ballI)
  have se: "set (customResponseOrder env (map (cache_getFilter s) customIds))
              = set (map (cache_getFilter s) customIds)"
    using assms by (rule mset_eq_setD)
  show "updateCustomFilters env [] s = ([], s)" by (simp add: updateCustomFilters_def)
  show "mset (fst (updateCustomFilters env customIds s)) =
        mset (filter (\<lambda>f. truthy_num (updateCustomFilterResponse env f))
                (map (cache_getFilter s) customIds))"
  proof (cases "customIds = []")
    case True
    then show ?thesis by (simp add: updateCustomFilters_def)
  next
    case False
    then have "fst (updateCustomFilters env customIds s) =
          filter (\<lambda>f. truthy_num (updateCustomFilterResponse env f))
            (customResponseOrder env (map (cache_getFilter s) customIds))"
      by (simp add: updateCustomFilters_def startCustomUpdates_eq)
    then show ?thesis using assms by (simp only: mset_filter)
  qed
  {
    assume "customIds \<noteq> []"
    then show "fst (updateCustomFilters env customIds s) =
          filter (\<lambda>f. truthy_num (updateCustomFilterResponse env f))
            (customResponseOrder env (map (cache_getFilter s) customIds))"
      and "snd (updateCustomFilters env customIds s) =
            s\<lparr>trace := trace s @
                 concat (map (\<lambda>i. [UpdateCustomFilter (cache_getFilter s i),
                                   Notify (FILTER_ADD_REMOVE (cache_getFilter s i))])
                           customIds)\<rparr>"
      by (simp_all add: updateCustomFilters_def startCustomUpdates_eq)
  }
  {
    fix i assume i: "i \<in> set customIds"
    then have ne: "customIds \<noteq> []" by auto
    from i ne show "Notify (FILTER_ADD_REMOVE (cache_getFilter s i))
          \<in> set (drop (length (trace s)) (trace (snd (updateCustomFilters env customIds s))))"
      by (auto simp: updateCustomFilters_def startCustomUpdates_eq)
    from i ne show "cache_getFilter s i \<in> set (fst (updateCustomFilters env customIds s))
             \<longleftrightarrow> truthy_num (updateCustomFilterResponse env (cache_getFilter s i))"
      by (auto simp: updateCustomFilters_def startCustomUpdates_eq se)
  }
qed

theorem updateCustomFilters_isolated_witness:
  "mset (customResponseOrder ex_env (map (cache_getFilter ex_state) [1000, 1001]))
     = mset (map (cache_getFilter ex_state) [1000, 1001])
   \<and> cache_getFilter ex_state 1000 = Some ex_custom
   \<and> cache_getFilter ex_state 1001 = Some ex_custom_b
   \<and> truthy_num (updateCustomFilterResponse ex_env (Some ex_custom))
   \<and> \<not> truthy_num (updateCustomFilterResponse ex_env (Some ex_custom_b))
   \<and> fst (updateCustomFilters ex_env [1000, 1001] ex_state) = [Some ex_custom]
   \<and> trace (snd (updateCustomFilters ex_env [1000, 1001] ex_state)) =
        [UpdateCustomFilter (Some ex_custom), Notify (FILTER_ADD_REMOVE (Some ex_custom)),
         UpdateCustomFilter (Some ex_custom_b), Notify (FILTER_ADD_REMOVE (Some ex_custom_b))]"
proof -
  have o: "customResponseOrder ex_env = rev" by (simp add: ex_env_def)
  have p: "mset (customResponseOrder ex_env (map (cache_getFilter ex_state) [1000, 1001]))
     = mset (map (cache_getFilter ex_state) [1000, 1001])"
    unfolding o by simp
  have g: "cache_getFilter ex_state 1000 = Some ex_custom"
    "cache_getFilter ex_state 1001 = Some ex_custom_b"
    by (simp_all add: cache_getFilter_def ex_state_def ex_filter_def ex_custom_def ex_custom_b_def)
  have r: "truthy_num (updateCustomFilterResponse ex_env (Some ex_custom))"
    "\<not> truthy_num (updateCustomFilterResponse ex_env (Some ex_custom_b))"
    by (simp_all add: ex_env_def truthy_num_def ex_custom_def ex_custom_b_def)
  have t: "trace ex_state = []" by (simp add: ex_state_def)
  have ne: "[1000, 1001] \<noteq> ([] :: int list)" by simp
  from updateCustomFilters_isolated [OF p] ne
  have a: "fst (updateCustomFilters ex_env [1000, 1001] ex_state) =
          filter (\<lambda>f. truthy_num (updateCustomFilterResponse ex_env f))
            (customResponseOrder ex_env (map (cache_getFilter ex_state) [1000, 1001]))"
    and b: "snd (updateCustomFilters ex_env [1000, 1001] ex_state) =
            ex_state\<lparr>trace := trace ex_state @
                 concat (map (\<lambda>i. [UpdateCustomFilter (cache_getFilter ex_state i),
                                   Notify (FILTER_ADD_REMOVE (cache_getFilter ex_state i))])
                           [1000, 1001])\<rparr>"
    by blast+
  have a': "fst (updateCustomFilters ex_env [1000, 1001] ex_state) = [Some ex_custom]"
    unfolding a o using g r by simp
  have b': "trace (snd (updateCustomFilters ex_env [1000, 1001] ex_state)) =
        [UpdateCustomFilter (Some ex_custom), Notify (FILTER_ADD_REMOVE (Some ex_custom)),
         UpdateCustomFilter (Some ex_custom_b), Notify (FILTER_ADD_REMOVE (Some ex_custom_b))]"
    unfolding b using g t by simp
  from p g r a' b' show ?thesis by blast
qed

section \<open>The batch of rules downloads\<close>

lemma withFilter_present:
  "(\<And>x. filterId (g x) = filterId x) \<Longrightarrow>
   (cache_getFilter (withFilter fid g evs s) k = None) = (cache_getFilter s k = None)"
  by (auto simp: withFilter_getFilter)

lemma request_storage [simp]: "storage (request e s) = storage s"
  by (simp add: request_def)

lemma loadFilterRules_request_present:
  assumes "cache_getFilter s (filterId md) = Some f"
  shows "\<exists>s1. loadFilterRules_request md b s = Inr s1
     \<and> trace s1 = trace s @ [Notify (START_DOWNLOAD_FILTER (f\<lparr>isDownloading := True\<rparr>)),
                              LoadFilterRules (filterId md) b]
     \<and> (\<forall>k. (cache_getFilter s1 k = None) = (cache_getFilter s k = None))
     \<and> storage s1 = storage s"
proof -
  have id: "filterId f = filterId md" using assms by (rule cache_getFilter_id)
  show ?thesis using assms id
    by (simp add: loadFilterRules_request_def withFilter_trace withFilter_present)
qed

lemma loadFilterRules_response_result:
  "\<exists>s1 d. loadFilterRules_response env md b s =
        (loadFilterRulesResponse env (filterId md) b \<noteq> RulesFailed, s1)
     \<and> trace s1 = trace s @ d
     \<and> (\<forall>e\<in>set d. \<not> is_network_request e \<and> \<not> is_popup e)
     \<and> (\<forall>k. (cache_getFilter s1 k = None) = (cache_getFilter s k = None))
     \<and> storage s1 = storage s"
  by (cases "loadFilterRulesResponse env (filterId md) b")
     (auto simp: loadFilterRules_response_def withFilter_trace withFilter_present
        split: option.splits)

lemma startDownloads_result:
  "\<exists>s1 d. startDownloads mds s =
        (filter (\<lambda>md. cache_getFilter s (filterId md) \<noteq> None) mds,
         (\<exists>md\<in>set mds. cache_getFilter s (filterId md) = None), s1)
     \<and> trace s1 = trace s @ d
     \<and> filter is_network_request d =
         map (\<lambda>md. LoadFilterRules (filterId md) True)
           (filter (\<lambda>md. cache_getFilter s (filterId md) \<noteq> None) mds)
     \<and> (\<forall>e\<in>set d. \<not> is_popup e)
     \<and> (\<forall>k. (cache_getFilter s1 k = None) = (cache_getFilter s k = None))
     \<and> storage s1 = storage s"
proof (induction mds arbitrary: s)
  case Nil
  then show ?case by simp
next
  case (Cons md mds)
  show ?case
  proof (cases "cache_getFilter s (filterId md)")
    case None
    then have r: "loadFilterRules_request md True s = Inl (TypeError, s)"
      by (simp add: loadFilterRules_request_def)
    from Cons.IH [of s] obtain s1 d where
      "startDownloads mds s =
        (filter (\<lambda>md. cache_getFilter s (filterId md) \<noteq> None) mds,
         (\<exists>md\<in>set mds. cache_getFilter s (filterId md) = None), s1)"
      "trace s1 = trace s @ d"
      "filter is_network_request d =
         map (\<lambda>md. LoadFilterRules (filterId md) True)
           (filter (\<lambda>md. cache_getFilter s (filterId md) \<noteq> None) mds)"
      "\<forall>e\<in>set d. \<not> is_popup e"
      "\<forall>k. (cache_getFilter s1 k = None) = (cache_getFilter s k = None)"
      "storage s1 = storage s"
      by blast
    with None r show ?thesis by auto
  next
    case (Some f)
    from loadFilterRules_request_present [OF Some, of True] obtain sa where
      a: "loadFilterRules_request md True s = Inr sa"
      and at: "trace sa = trace s @ [Notify (START_DOWNLOAD_FILTER (f\<lparr>isDownloading := True\<rparr>)),
                              LoadFilterRules (filterId md) True]"
      and ap: "\<forall>k. (cache_getFilter sa k = None) = (cache_getFilter s k = None)"
      and as: "storage sa = storage s"
      by blast
    from Cons.IH [of sa] obtain s1 d where
      b: "startDownloads mds sa =
        (filter (\<lambda>md. cache_getFilter sa (filterId md) \<noteq> None) mds,
         (\<exists>md\<in>set mds. cache_getFilter sa (filterId md) = None), s1)"
      and bt: "trace s1 = trace sa @ d"
      and bn: "filter is_network_request d =
         map (\<lambda>md. LoadFilterRules (filterId md) True)
           (filter (\<lambda>md. cache_getFilter sa (filterId md) \<noteq> None) mds)"
      and bp: "\<forall>e\<in>set d. \<not> is_popup e"
      and bk: "\<forall>k. (cache_getFilter s1 k = None) = (cache_getFilter sa k = None)"
      and bs: "storage s1 = storage sa"
      by blast
    let ?d = "[Notify (START_DOWNLOAD_FILTER (f\<lparr>isDownloading := True\<rparr>)),
                LoadFilterRules (filterId md) True] @ d"
    have 1: "startDownloads (md # mds) s =
        (filter (\<lambda>md. cache_getFilter s (filterId md) \<noteq> None) (md # mds),
         (\<exists>md\<in>set (md # mds). cache_getFilter s (filterId md) = None), s1)"
      using a b Some ap by simp
    have 2: "trace s1 = trace s @ ?d" using at bt by simp
    have 3: "filter is_network_request ?d =
         map (\<lambda>md. LoadFilterRules (filterId md) True)
           (filter (\<lambda>md. cache_getFilter s (filterId md) \<noteq> None) (md # mds))"
      using bn Some ap by simp
    have 4: "\<forall>e\<in>set ?d. \<not> is_popup e" using bp by simp
    have 5: "\<forall>k. (cache_getFilter s1 k = None) = (cache_getFilter s k = None)"
      using bk ap by simp
    have 6: "storage s1 = storage s" using bs as by simp
    from 1 2 3 4 5 6 show ?thesis by blast
  qed
qed

lemma awaitDownloads_result:
  "\<exists>s1 d rest. awaitDownloads env pend acc s =
        (s1,
         (if \<forall>md\<in>set pend. loadFilterRulesResponse env (filterId md) True \<noteq> RulesFailed
          then (True, Some (acc @ map filterId pend)) else (False, None)),
         rest)
     \<and> trace s1 = trace s @ d
     \<and> (\<forall>e\<in>set d. \<not> is_network_request e \<and> \<not> is_popup e)
     \<and> (\<forall>k. (cache_getFilter s1 k = None) = (cache_getFilter s k = None))
     \<and> storage s1 = storage s"
proof (induction pend arbitrary: acc s)
  case Nil
  then show ?case by simp
next
  case (Cons md pend)
  from loadFilterRules_response_result [of env md True s] obtain sa da where
    a: "loadFilterRules_response env md True s =
        (loadFilterRulesResponse env (filterId md) True \<noteq> RulesFailed, sa)"
    and at: "trace sa = trace s @ da"
    and an: "\<forall>e\<in>set da. \<not> is_network_request e \<and> \<not> is_popup e"
    and ak: "\<forall>k. (cache_getFilter sa k = None) = (cache_getFilter s k = None)"
    and as: "storage sa = storage s"
    by blast
  show ?case
  proof (cases "loadFilterRulesResponse env (filterId md) True \<noteq> RulesFailed")
    case False
    with a at an ak as show ?thesis by auto
  next
    case True
    from Cons.IH [of "acc @ [filterId md]" sa] obtain s1 d rest where
      b: "awaitDownloads env pend (acc @ [filterId md]) sa =
        (s1,
         (if \<forall>md\<in>set pend. loadFilterRulesResponse env (filterId md) True \<noteq> RulesFailed
          then (True, Some ((acc @ [filterId md]) @ map filterId pend)) else (False, None)),
         rest)"
      and bt: "trace s1 = trace sa @ d"
      and bn: "\<forall>e\<in>set d. \<not> is_network_request e \<and> \<not> is_popup e"
      and bk: "\<forall>k. (cache_getFilter s1 k = None) = (cache_getFilter sa k = None)"
      and bs: "storage s1 = storage sa"
      by blast
    have 1: "awaitDownloads env (md # pend) acc s =
        (s1,
         (if \<forall>md\<in>set (md # pend). loadFilterRulesResponse env (filterId md) True \<noteq> RulesFailed
          then (True, Some (acc @ map filterId (md # pend))) else (False, None)),
         rest)"
      using a b True by simp
    have 2: "trace s1 = trace s @ (da @ d)" using at bt by simp
    have 3: "\<forall>e\<in>set (da @ d). \<not> is_network_request e \<and> \<not> is_popup e"
      using an bn by auto
    have 4: "\<forall>k. (cache_getFilter s1 k = None) = (cache_getFilter s k = None)"
      using ak bk by simp
    have 5: "storage s1 = storage s" using as bs by simp
    from 1 2 3 4 5 show ?thesis by blast
  qed
qed

lemma filter_none: "(\<forall>e\<in>set d. \<not> P e) \<Longrightarrow> filter P d = []"
  by (induction d) auto

lemma loadFiltersFromBackend_result:
  assumes order: "\<And>xs. mset (rulesResponseOrder env xs) = mset xs"
  shows "\<exists>s1 d rest. loadFiltersFromBackend env mds s =
        (s1,
         (if \<forall>md\<in>set mds. cache_getFilter s (filterId md) \<noteq> None
               \<and> loadFilterRulesResponse env (filterId md) True \<noteq> RulesFailed
          then (True, Some (map filterId (rulesResponseOrder env mds))) else (False, None)),
         rest)
     \<and> trace s1 = trace s @ d
     \<and> filter is_network_request d =
         map (\<lambda>md. LoadFilterRules (filterId md) True)
           (filter (\<lambda>md. cache_getFilter s (filterId md) \<noteq> None) mds)
     \<and> (\<forall>e\<in>set d. \<not> is_popup e)
     \<and> (\<forall>k. (cache_getFilter s1 k = None) = (cache_getFilter s k = None))
     \<and> storage s1 = storage s"
proof -
  let ?pend = "filter (\<lambda>md. cache_getFilter s (filterId md) \<noteq> None) mds"
  let ?threw = "\<exists>md\<in>set mds. cache_getFilter s (filterId md) = None"
  from startDownloads_result [of mds s] obtain sa da where
    a: "startDownloads mds s = (?pend, ?threw, sa)"
    and at: "trace sa = trace s @ da"
    and an: "filter is_network_request da = map (\<lambda>md. LoadFilterRules (filterId md) True) ?pend"
    and ap: "\<forall>e\<in>set da. \<not> is_popup e"
    and ak: "\<forall>k. (cache_getFilter sa k = None) = (cache_getFilter s k = None)"
    and as: "storage sa = storage s"
    by blast
  show ?thesis
  proof (cases ?threw)
    case True
    then have "loadFiltersFromBackend env mds s = (sa, (False, None), rulesResponseOrder env ?pend)"
      using a by (simp add: loadFiltersFromBackend_def)
    moreover have "\<not> (\<forall>md\<in>set mds. cache_getFilter s (filterId md) \<noteq> None
               \<and> loadFilterRulesResponse env (filterId md) True \<noteq> RulesFailed)"
      using True by blast
    ultimately show ?thesis using at an ap ak as by (simp del: not_None_eq)
  next
    case False
    then have all: "?pend = mds" by (auto simp: filter_id_conv)
    have se: "set (rulesResponseOrder env mds) = set mds"
      using order [of mds] by (rule mset_eq_setD)
    from awaitDownloads_result [of env "rulesResponseOrder env mds" "[]" sa] obtain s1 d rest where
      b: "awaitDownloads env (rulesResponseOrder env mds) [] sa =
        (s1,
         (if \<forall>md\<in>set (rulesResponseOrder env mds).
                loadFilterRulesResponse env (filterId md) True \<noteq> RulesFailed
          then (True, Some ([] @ map filterId (rulesResponseOrder env mds))) else (False, None)),
         rest)"
      and bt: "trace s1 = trace sa @ d"
      and bn: "\<forall>e\<in>set d. \<not> is_network_request e \<and> \<not> is_popup e"
      and bk: "\<forall>k. (cache_getFilter s1 k = None) = (cache_getFilter sa k = None)"
      and bs: "storage s1 = storage sa"
      by blast
    have c: "(\<forall>md\<in>set mds. cache_getFilter s (filterId md) \<noteq> None
               \<and> loadFilterRulesResponse env (filterId md) True \<noteq> RulesFailed)
          = (\<forall>md\<in>set (rulesResponseOrder env mds).
               loadFilterRulesResponse env (filterId md) True \<noteq> RulesFailed)"
      unfolding se using False by auto
    have 1: "loadFiltersFromBackend env mds s =
        (s1,
         (if \<forall>md\<in>set mds. cache_getFilter s (filterId md) \<noteq> None
               \<and> loadFilterRulesResponse env (filterId md) True \<noteq> RulesFailed
          then (True, Some (map filterId (rulesResponseOrder env mds))) else (False, None)),
         rest)"
      unfolding c using a b False all by (simp add: loadFiltersFromBackend_def)
    have 2: "trace s1 = trace s @ (da @ d)" using at bt by simp
    have "filter is_network_request d = []" using bn by (intro filter_none) blast
    then have 3: "filter is_network_request (da @ d) =
         map (\<lambda>md. LoadFilterRules (filterId md) True) ?pend"
      using an by simp
    have 4: "\<forall>e\<in>set (da @ d). \<not> is_popup e" using ap bn by auto
    have 5: "\<forall>k. (cache_getFilter s1 k = None) = (cache_getFilter s k = None)"
      using ak bk by simp
    have 6: "storage s1 = storage s" using as bs by simp
    from 1 2 3 4 5 6 show ?thesis by blast
  qed
qed

text \<open>
  C3. \<open>loadFiltersFromBackend\<close> issues one rules request (with \<open>forceRemote\<close>) for every
  metadata entry whose filter is registered, in the order of the list, so one per entry for
  the lists its caller passes (entries whose filter was just found in the registry). Its
  callback gets \<open>(true, ids of all entries)\<close>, in the order in which the downloads were
  answered, when every download succeeds, and \<open>(false)\<close> without any list as soon as one
  fails, whichever downloads had succeeded. Every request is assumed to be answered once.
\<close>

theorem loadFiltersFromBackend_all_or_nothing:
  assumes "\<forall>xs. mset (rulesResponseOrder env xs) = mset xs"
  shows "fst (snd (loadFiltersFromBackend env mds s)) =
      (if \<forall>md\<in>set mds. cache_getFilter s (filterId md) \<noteq> None
            \<and> loadFilterRulesResponse env (filterId md) True \<noteq> RulesFailed
       then (True, Some (map filterId (rulesResponseOrder env mds))) else (False, None))
   \<and> filter is_network_request
         (drop (length (trace s)) (trace (fst (loadFiltersFromBackend env mds s)))) =
       map (\<lambda>md. LoadFilterRules (filterId md) True)
         (filter (\<lambda>md. cache_getFilter s (filterId md) \<noteq> None) mds)
   \<and> ((\<forall>md\<in>set mds. cache_getFilter s (filterId md) \<noteq> None) \<longrightarrow>
        filter is_network_request
          (drop (length (trace s)) (trace (fst (loadFiltersFromBackend env mds s)))) =
        map (\<lambda>md. LoadFilterRules (filterId md) True) mds)"
proof -
  have order: "\<And>xs. mset (rulesResponseOrder env xs) = mset xs" using assms by blast
  from loadFiltersFromBackend_result [OF order, of mds s] obtain s1 d rest where
    r: "loadFiltersFromBackend env mds s =
        (s1,
         (if \<forall>md\<in>set mds. cache_getFilter s (filterId md) \<noteq> None
               \<and> loadFilterRulesResponse env (filterId md) True \<noteq> RulesFailed
          then (True, Some (map filterId (rulesResponseOrder env mds))) else (False, None)),
         rest)"
    and t: "trace s1 = trace s @ d"
    and n: "filter is_network_request d =
         map (\<lambda>md. LoadFilterRules (filterId md) True)
           (filter (\<lambda>md. cache_getFilter s (filterId md) \<noteq> None) mds)"
    by blast
  have 1: "fst (snd (loadFiltersFromBackend env mds s)) =
      (if \<forall>md\<in>set mds. cache_getFilter s (filterId md) \<noteq> None
            \<and> loadFilterRulesResponse env (filterId md) True \<noteq> RulesFailed
       then (True, Some (map filterId (rulesResponseOrder env mds))) else (False, None))"
    by (simp only: r fst_conv snd_conv)
  have 2: "filter is_network_request
         (drop (length (trace s)) (trace (fst (loadFiltersFromBackend env mds s)))) =
       map (\<lambda>md. LoadFilterRules (filterId md) True)
         (filter (\<lambda>md. cache_getFilter s (filterId md) \<noteq> None) mds)"
    using n by (simp only: r fst_conv t) simp
  have 3: "(\<forall>md\<in>set mds. cache_getFilter s (filterId md) \<noteq> None) \<longrightarrow>
        filter is_network_request
          (drop (length (trace s)) (trace (fst (loadFiltersFromBackend env mds s)))) =
        map (\<lambda>md. LoadFilterRules (filterId md) True) mds"
  proof
    assume "\<forall>md\<in>set mds. cache_getFilter s (filterId md) \<noteq> None"
    then have "filter (\<lambda>md. cache_getFilter s (filterId md) \<noteq> None) mds = mds"
      by (simp add: filter_id_conv del: not_None_eq)
    with 2 show "filter is_network_request
          (drop (length (trace s)) (trace (fst (loadFiltersFromBackend env mds s)))) =
        map (\<lambda>md. LoadFilterRules (filterId md) True) mds"
      by simp
  qed
  from 1 2 3 show ?thesis by blast
qed

theorem loadFiltersFromBackend_all_or_nothing_witness:
  "rulesResponseOrder ex_env = rev
   \<and> cache_getFilter ex_state 1 = Some (ex_filter 1)
   \<and> cache_getFilter ex_state 2 = Some (ex_filter 2)
   \<and> cache_getFilter ex_state 3 = Some (ex_filter 3)
   \<and> loadFilterRulesResponse ex_env 1 True \<noteq> RulesFailed
   \<and> loadFilterRulesResponse ex_env 2 True = RulesFailed
   \<and> loadFilterRulesResponse ex_env 3 True \<noteq> RulesFailed
   \<and> fst (snd (loadFiltersFromBackend ex_env [ex_filter 1, ex_filter 2, ex_filter 3] ex_state))
        = (False, None)
   \<and> fst (snd (loadFiltersFromBackend ex_env [ex_filter 1, ex_filter 3] ex_state))
        = (True, Some [3, 1])
   \<and> filter is_network_request
        (drop (length (trace ex_state))
           (trace (fst (loadFiltersFromBackend ex_env [ex_filter 1, ex_filter 2, ex_filter 3]
                          ex_state))))
        = [LoadFilterRules 1 True, LoadFilterRules 2 True, LoadFilterRules 3 True]"
proof -
  have o: "rulesResponseOrder ex_env = rev" by (simp add: ex_env_def)
  have p: "\<forall>xs. mset (rulesResponseOrder ex_env xs) = mset xs" unfolding o by simp
  have g: "cache_getFilter ex_state 1 = Some (ex_filter 1)"
    "cache_getFilter ex_state 2 = Some (ex_filter 2)"
    "cache_getFilter ex_state 3 = Some (ex_filter 3)"
    by (simp_all add: cache_getFilter_def ex_state_def ex_filter_def)
  have r: "loadFilterRulesResponse ex_env 1 True \<noteq> RulesFailed"
    "loadFilterRulesResponse ex_env 2 True = RulesFailed"
    "loadFilterRulesResponse ex_env 3 True \<noteq> RulesFailed"
    by (simp_all add: ex_env_def)
  have i: "filterId (ex_filter 1) = 1" "filterId (ex_filter 2) = 2" "filterId (ex_filter 3) = 3"
    by (simp_all add: ex_filter_def)
  from loadFiltersFromBackend_all_or_nothing
         [OF p, of "[ex_filter 1, ex_filter 2, ex_filter 3]" ex_state] g r i
  have a: "fst (snd (loadFiltersFromBackend ex_env [ex_filter 1, ex_filter 2, ex_filter 3] ex_state))
        = (False, None)"
    and c: "filter is_network_request
        (drop (length (trace ex_state))
           (trace (fst (loadFiltersFromBackend ex_env [ex_filter 1, ex_filter 2, ex_filter 3]
                          ex_state))))
        = [LoadFilterRules 1 True, LoadFilterRules 2 True, LoadFilterRules 3 True]"
    by simp_all
  from loadFiltersFromBackend_all_or_nothing [OF p, of "[ex_filter 1, ex_filter 3]" ex_state]
    g r i o
  have b: "fst (snd (loadFiltersFromBackend ex_env [ex_filter 1, ex_filter 3] ex_state))
        = (True, Some [3, 1])"
    by simp
  from o g r a b c show ?thesis by blast
qed

section \<open>The update check\<close>

lemma setFiltersUpdateLastCheck_facts:
  "trace (setFiltersUpdateLastCheck v s) = trace s @ [StorageSetItem FILTERS_UPDATE_LAST_CHECK_KEY v]"
  "storage (setFiltersUpdateLastCheck v s) FILTERS_UPDATE_LAST_CHECK_KEY = Some v"
  "cache_getFilter (setFiltersUpdateLastCheck v s) k = cache_getFilter s k"
  "selectFilterIdsToUpdate env force filters (setFiltersUpdateLastCheck v s)
     = selectFilterIdsToUpdate env force filters s"
  by (simp_all add: setFiltersUpdateLastCheck_def cache_getFilter_def selectFilterIdsToUpdate_def
      split: option.splits)

lemma filterMetadataListToUpdate_eq:
  "filterMetadataListToUpdate env s mdl =
     filter (\<lambda>md. \<exists>f v. cache_getFilter s (filterId md) = Some f \<and> version md = Some v
                    \<and> v \<noteq> [] \<and> isGreaterVersion env v (version f)) mdl"
  by (induction mdl) (auto split: option.splits)

lemma filterMetadataListToUpdate_cong:
  "(\<And>k. cache_getFilter s k = cache_getFilter s' k) \<Longrightarrow>
   filterMetadataListToUpdate env s mdl = filterMetadataListToUpdate env s' mdl"
  by (simp add: filterMetadataListToUpdate_eq)

lemma completeDownloads_result:
  "\<exists>d. trace (completeDownloads env pend s) = trace s @ d
     \<and> (\<forall>e\<in>set d. \<not> is_network_request e \<and> \<not> is_popup e)
     \<and> storage (completeDownloads env pend s) = storage s"
proof (induction pend arbitrary: s)
  case Nil
  then show ?case by simp
next
  case (Cons md pend)
  from loadFilterRules_response_result [of env md True s] obtain sa da where
    a: "loadFilterRules_response env md True s =
        (loadFilterRulesResponse env (filterId md) True \<noteq> RulesFailed, sa)"
    and at: "trace sa = trace s @ da"
    and an: "\<forall>e\<in>set da. \<not> is_network_request e \<and> \<not> is_popup e"
    and as: "storage sa = storage s"
    by blast
  from Cons.IH [of sa] obtain d where
    bt: "trace (completeDownloads env pend sa) = trace sa @ d"
    and bn: "\<forall>e\<in>set d. \<not> is_network_request e \<and> \<not> is_popup e"
    and bs: "storage (completeDownloads env pend sa) = storage sa"
    by blast
  have "trace (completeDownloads env (md # pend) s) = trace s @ (da @ d)"
    using a at bt by simp
  moreover have "\<forall>e\<in>set (da @ d). \<not> is_network_request e \<and> \<not> is_popup e"
    using an bn by auto
  moreover have "storage (completeDownloads env (md # pend) s) = storage s"
    using a as bs by simp
  ultimately show ?case by blast
qed

lemma updateCustomFilters_result:
  "\<exists>customs s3 d. updateCustomFilters env cids s = (customs, s3)
     \<and> trace s3 = trace s @ d
     \<and> (\<forall>e\<in>set d. \<not> is_popup e \<and> (\<forall>i b. e \<noteq> LoadFilterRules i b))
     \<and> storage s3 = storage s"
proof (cases "cids = []")
  case True
  then show ?thesis by (simp add: updateCustomFilters_def)
next
  case False
  then show ?thesis
    by (auto simp: updateCustomFilters_def startCustomUpdates_eq)
qed

lemma onSuccess_facts:
  "trace (onSuccess env force ups s) = trace s @
     [Notify (UPDATE_FILTERS_SHOW_POPUP
        \<lparr>success = True, updatedFilters = Some ups, forceUpdate = force,
         filtersUpdateLastCheck = dateNow env\<rparr>)]"
  "storage (onSuccess env force ups s) = storage s"
  by (simp_all add: onSuccess_def notifyListeners_def)

lemma onError_facts:
  "trace (onError env force s) = trace s @
     [Notify (UPDATE_FILTERS_SHOW_POPUP
        \<lparr>success = False, updatedFilters = None, forceUpdate = force,
         filtersUpdateLastCheck = dateNow env\<rparr>)]"
  "storage (onError env force s) = storage s"
  by (simp_all add: onError_def notifyListeners_def)

lemma in_filter_requests:
  "LoadFilterRules i b \<in> set d \<Longrightarrow> LoadFilterRules i b \<in> set (filter is_network_request d)"
  by simp

lemma loadFiltersFromBackendCallback_result:
  assumes order: "\<And>xs. mset (rulesResponseOrder env xs) = mset xs"
  shows "\<exists>d. trace (loadFiltersFromBackendCallback env force cids mds s) = trace s @ d
     \<and> storage (loadFiltersFromBackendCallback env force cids mds s) = storage s
     \<and> (\<forall>i b. LoadFilterRules i b \<in> set d \<longrightarrow> b \<and> i \<in> filterId ` set mds)
     \<and> (if \<forall>md\<in>set mds. cache_getFilter s (filterId md) \<noteq> None
               \<and> loadFilterRulesResponse env (filterId md) True \<noteq> RulesFailed
         then \<exists>ups. filter is_popup d =
                [Notify (UPDATE_FILTERS_SHOW_POPUP
                   \<lparr>success = True, updatedFilters = Some ups, forceUpdate = force,
                    filtersUpdateLastCheck = dateNow env\<rparr>)]
         else filter is_popup d =
                [Notify (UPDATE_FILTERS_SHOW_POPUP
                   \<lparr>success = False, updatedFilters = None, forceUpdate = force,
                    filtersUpdateLastCheck = dateNow env\<rparr>)])"
proof -
  let ?allok = "\<forall>md\<in>set mds. cache_getFilter s (filterId md) \<noteq> None
               \<and> loadFilterRulesResponse env (filterId md) True \<noteq> RulesFailed"
  from loadFiltersFromBackend_result [OF order, of mds s] obtain s2 d2 pend where
    r: "loadFiltersFromBackend env mds s =
        (s2, (if ?allok then (True, Some (map filterId (rulesResponseOrder env mds)))
              else (False, None)), pend)"
    and t2: "trace s2 = trace s @ d2"
    and n2: "filter is_network_request d2 =
         map (\<lambda>md. LoadFilterRules (filterId md) True)
           (filter (\<lambda>md. cache_getFilter s (filterId md) \<noteq> None) mds)"
    and p2: "\<forall>e\<in>set d2. \<not> is_popup e"
    and st2: "storage s2 = storage s"
    by blast
  have l2: "\<forall>i b. LoadFilterRules i b \<in> set d2 \<longrightarrow> b \<and> i \<in> filterId ` set mds"
  proof (intro allI impI)
    fix i b assume "LoadFilterRules i b \<in> set d2"
    then have "LoadFilterRules i b \<in> set (filter is_network_request d2)"
      by (rule in_filter_requests)
    then show "b \<and> i \<in> filterId ` set mds" unfolding n2 by auto
  qed
  have f2: "filter is_popup d2 = []" using p2 by (rule filter_none)
  show ?thesis
  proof (cases ?allok)
    case True
    from updateCustomFilters_result [of env cids s2] obtain customs s3 d3 where
      u: "updateCustomFilters env cids s2 = (customs, s3)"
      and t3: "trace s3 = trace s2 @ d3"
      and p3: "\<forall>e\<in>set d3. \<not> is_popup e \<and> (\<forall>i b. e \<noteq> LoadFilterRules i b)"
      and st3: "storage s3 = storage s2"
      by blast
    let ?ups = "map Some (List.map_filter (cache_getFilter s2)
                            (map filterId (rulesResponseOrder env mds))) @ customs"
    let ?s4 = "onSuccess env force ?ups s3"
    let ?pop = "Notify (UPDATE_FILTERS_SHOW_POPUP
                   \<lparr>success = True, updatedFilters = Some ?ups, forceUpdate = force,
                    filtersUpdateLastCheck = dateNow env\<rparr>)"
    from completeDownloads_result [of env pend ?s4] obtain d5 where
      t5: "trace (completeDownloads env pend ?s4) = trace ?s4 @ d5"
      and p5: "\<forall>e\<in>set d5. \<not> is_network_request e \<and> \<not> is_popup e"
      and st5: "storage (completeDownloads env pend ?s4) = storage ?s4"
      by blast
    have res: "loadFiltersFromBackendCallback env force cids mds s = completeDownloads env pend ?s4"
      using r u True by (simp add: loadFiltersFromBackendCallback_def del: not_None_eq)
    have f3: "filter is_popup d3 = []" using p3 by (intro filter_none) blast
    have f5: "filter is_popup d5 = []" using p5 by (intro filter_none) blast
    have 1: "trace (loadFiltersFromBackendCallback env force cids mds s)
               = trace s @ (d2 @ d3 @ [?pop] @ d5)"
      unfolding res using t5 t3 t2 by (simp add: onSuccess_facts)
    have 2: "storage (loadFiltersFromBackendCallback env force cids mds s) = storage s"
      unfolding res using st5 st3 st2 by (simp add: onSuccess_facts)
    have n3: "\<And>i b. LoadFilterRules i b \<notin> set d3" using p3 by blast
    have n5: "\<And>i b. LoadFilterRules i b \<notin> set d5" using p5 by fastforce
    have 3: "\<forall>i b. LoadFilterRules i b \<in> set (d2 @ d3 @ [?pop] @ d5)
                 \<longrightarrow> b \<and> i \<in> filterId ` set mds"
      using l2 n3 n5 by auto
    have 4: "filter is_popup (d2 @ d3 @ [?pop] @ d5) = [?pop]"
      using f2 f3 f5 by simp
    from 1 2 3 4 True show ?thesis by (auto simp del: not_None_eq)
  next
    case False
    let ?s4 = "onError env force s2"
    let ?pop = "Notify (UPDATE_FILTERS_SHOW_POPUP
                   \<lparr>success = False, updatedFilters = None, forceUpdate = force,
                    filtersUpdateLastCheck = dateNow env\<rparr>)"
    from completeDownloads_result [of env pend ?s4] obtain d5 where
      t5: "trace (completeDownloads env pend ?s4) = trace ?s4 @ d5"
      and p5: "\<forall>e\<in>set d5. \<not> is_network_request e \<and> \<not> is_popup e"
      and st5: "storage (completeDownloads env pend ?s4) = storage ?s4"
      by blast
    have res: "loadFiltersFromBackendCallback env force cids mds s = completeDownloads env pend ?s4"
      using r False by (simp add: loadFiltersFromBackendCallback_def del: not_None_eq)
    have f5: "filter is_popup d5 = []" using p5 by (intro filter_none) blast
    have 1: "trace (loadFiltersFromBackendCallback env force cids mds s)
               = trace s @ (d2 @ [?pop] @ d5)"
      unfolding res using t5 t2 by (simp add: onError_facts)
    have 2: "storage (loadFiltersFromBackendCallback env force cids mds s) = storage s"
      unfolding res using st5 st2 by (simp add: onError_facts)
    have n5: "\<And>i b. LoadFilterRules i b \<notin> set d5" using p5 by fastforce
    have 3: "\<forall>i b. LoadFilterRules i b \<in> set (d2 @ [?pop] @ d5)
                 \<longrightarrow> b \<and> i \<in> filterId ` set mds"
      using l2 n5 by auto
    have 4: "filter is_popup (d2 @ [?pop] @ d5) = [?pop]"
      using f2 f5 by simp
    from 1 2 3 4 False show ?thesis by (auto simp del: not_None_eq)
  qed
qed

lemma request_facts:
  "cache_getFilter (request e s) k = cache_getFilter s k"
  "storage (request e s) = storage s"
  "trace (request e s) = trace s @ [e]"
  by (simp_all add: request_def cache_getFilter_def)

text \<open>
  C2. Every call of \<open>checkAntiBannerFiltersUpdate\<close> first writes the time of the check
  to the storage: the write is the first effect of the call, before any request. The
  effects that follow contain exactly one \<open>UPDATE_FILTERS_SHOW_POPUP\<close>. When the metadata
  request fails, or one of the rules downloads of the batch fails, its payload is
  \<open>success = false\<close> with \<open>forceUpdate\<close> and the time of the check and no list of
  updated filters; otherwise it is \<open>success = true\<close> with a list. Every rules download
  the call starts is for one of the built-in identifiers that \<open>selectFilterIdsToUpdate\<close>
  selected for this call, the filter is registered, and the version of its entry in the
  metadata response is one that \<open>isGreaterVersion\<close> finds greater than the registered
  one. Every rules download and every custom filter update is assumed to be answered
  once, and the metadata response to hold entries for the requested identifiers only.
\<close>

theorem checkAntiBannerFiltersUpdate_reports_once:
  assumes "\<forall>xs. mset (rulesResponseOrder env xs) = mset xs"
    and "\<forall>xs. mset (customResponseOrder env xs) = mset xs"
    and "\<forall>mdl. loadFiltersMetadataResponse env
                  (filterIds (selectFilterIdsToUpdate env force filters s)) = Some mdl
            \<longrightarrow> filterId ` set mdl
                  \<subseteq> set (filterIds (selectFilterIdsToUpdate env force filters s))"
  shows "\<exists>rest.
     trace (checkAntiBannerFiltersUpdate env force filters s) =
       trace s @ StorageSetItem FILTERS_UPDATE_LAST_CHECK_KEY (dateNow env) # rest
     \<and> storage (checkAntiBannerFiltersUpdate env force filters s) FILTERS_UPDATE_LAST_CHECK_KEY
         = Some (dateNow env)
     \<and> length (filter is_popup rest) = 1
     \<and> (if filterIds (selectFilterIdsToUpdate env force filters s) \<noteq> []
           \<and> (case loadFiltersMetadataResponse env
                      (filterIds (selectFilterIdsToUpdate env force filters s)) of
                 None \<Rightarrow> True
               | Some mdl \<Rightarrow>
                   \<exists>md\<in>set (filterMetadataListToUpdate env s mdl).
                      loadFilterRulesResponse env (filterId md) True = RulesFailed)
         then filter is_popup rest =
                [Notify (UPDATE_FILTERS_SHOW_POPUP
                   \<lparr>success = False, updatedFilters = None, forceUpdate = force,
                    filtersUpdateLastCheck = dateNow env\<rparr>)]
         else \<exists>ups. filter is_popup rest =
                [Notify (UPDATE_FILTERS_SHOW_POPUP
                   \<lparr>success = True, updatedFilters = Some ups, forceUpdate = force,
                    filtersUpdateLastCheck = dateNow env\<rparr>)])
     \<and> (\<forall>i b. LoadFilterRules i b \<in> set rest \<longrightarrow>
           b \<and> i \<in> set (filterIds (selectFilterIdsToUpdate env force filters s))
           \<and> (\<exists>mdl md f v.
                  loadFiltersMetadataResponse env
                    (filterIds (selectFilterIdsToUpdate env force filters s)) = Some mdl
                  \<and> md \<in> set mdl \<and> filterId md = i
                  \<and> cache_getFilter s i = Some f \<and> version md = Some v
                  \<and> v \<noteq> [] \<and> isGreaterVersion env v (version f)))"
proof -
  have order: "\<And>xs. mset (rulesResponseOrder env xs) = mset xs" using assms(1) by blast
  define ids where "ids = filterIds (selectFilterIdsToUpdate env force filters s)"
  have requested: "\<And>mdl. loadFiltersMetadataResponse env ids = Some mdl
                     \<Longrightarrow> filterId ` set mdl \<subseteq> set ids"
    using assms(3) unfolding ids_def by blast
  define cids where "cids = customFilterIds (selectFilterIdsToUpdate env force filters s)"
  define s0 where "s0 = setFiltersUpdateLastCheck (dateNow env) s"
  let ?key = "StorageSetItem FILTERS_UPDATE_LAST_CHECK_KEY (dateNow env)"
  let ?err = "Notify (UPDATE_FILTERS_SHOW_POPUP
                   \<lparr>success = False, updatedFilters = None, forceUpdate = force,
                    filtersUpdateLastCheck = dateNow env\<rparr>)"
  let ?failed = "ids \<noteq> []
           \<and> (case loadFiltersMetadataResponse env ids of
                 None \<Rightarrow> True
               | Some mdl \<Rightarrow>
                   \<exists>md\<in>set (filterMetadataListToUpdate env s mdl).
                      loadFilterRulesResponse env (filterId md) True = RulesFailed)"
  let ?P = "\<lambda>rest. trace (checkAntiBannerFiltersUpdate env force filters s) = trace s @ ?key # rest
     \<and> storage (checkAntiBannerFiltersUpdate env force filters s) FILTERS_UPDATE_LAST_CHECK_KEY
         = Some (dateNow env)
     \<and> length (filter is_popup rest) = 1
     \<and> (if ?failed then filter is_popup rest = [?err]
         else \<exists>ups. filter is_popup rest =
                [Notify (UPDATE_FILTERS_SHOW_POPUP
                   \<lparr>success = True, updatedFilters = Some ups, forceUpdate = force,
                    filtersUpdateLastCheck = dateNow env\<rparr>)])
     \<and> (\<forall>i b. LoadFilterRules i b \<in> set rest \<longrightarrow>
           b \<and> i \<in> set ids
           \<and> (\<exists>mdl md f v.
                  loadFiltersMetadataResponse env ids = Some mdl
                  \<and> md \<in> set mdl \<and> filterId md = i
                  \<and> cache_getFilter s i = Some f \<and> version md = Some v
                  \<and> v \<noteq> [] \<and> isGreaterVersion env v (version f)))"
  have t0: "trace s0 = trace s @ [?key]"
    and st0: "storage s0 FILTERS_UPDATE_LAST_CHECK_KEY = Some (dateNow env)"
    and g0: "\<And>k. cache_getFilter s0 k = cache_getFilter s k"
    by (simp_all add: s0_def setFiltersUpdateLastCheck_facts)
  have unfold: "checkAntiBannerFiltersUpdate env force filters s =
     (if length ids + length cids = 0 then onSuccess env force [] s0
      else (case loadFiltersMetadataFromBackend env ids s0 of
              (response, s1) \<Rightarrow> onLoadFilterMetadataList env force cids response s1))"
    by (simp add: checkAntiBannerFiltersUpdate_def Let_def setFiltersUpdateLastCheck_facts
        ids_def cids_def s0_def)
  have "\<exists>rest. ?P rest"
  proof (cases "length ids + length cids = 0")
    case True
    then have e: "ids = []" by simp
    have res: "checkAntiBannerFiltersUpdate env force filters s = onSuccess env force [] s0"
      using True unfold by simp
    let ?rest = "[Notify (UPDATE_FILTERS_SHOW_POPUP
                   \<lparr>success = True, updatedFilters = Some [], forceUpdate = force,
                    filtersUpdateLastCheck = dateNow env\<rparr>)]"
    have "?P ?rest"
      unfolding res using e t0 st0 by (simp add: onSuccess_facts)
    then show ?thesis by blast
  next
    case nz: False
    show ?thesis
    proof (cases "ids \<noteq> [] \<and> loadFiltersMetadataResponse env ids = None")
      case True
      let ?s1 = "request (LoadFiltersMetadata ids) s0"
      have res: "checkAntiBannerFiltersUpdate env force filters s = onError env force ?s1"
        using True
        by (subst unfold, subst if_not_P [OF nz])
           (simp add: loadFiltersMetadataFromBackend_def onLoadFilterMetadataList_def)
      let ?rest = "[LoadFiltersMetadata ids, ?err]"
      have "?P ?rest"
        unfolding res using True t0 st0 by (simp add: onError_facts request_facts)
      then show ?thesis by blast
    next
      case False
      define mdl where "mdl = (if ids = [] then [] else the (loadFiltersMetadataResponse env ids))"
      define dm where "dm = (if ids = [] then [] else [LoadFiltersMetadata ids])"
      define s1 where "s1 = (if ids = [] then s0 else request (LoadFiltersMetadata ids) s0)"
      have m: "loadFiltersMetadataFromBackend env ids s0 = (Some mdl, s1)"
        using False by (auto simp: loadFiltersMetadataFromBackend_def mdl_def s1_def)
      have t1: "trace s1 = trace s @ ?key # dm"
        and st1: "storage s1 FILTERS_UPDATE_LAST_CHECK_KEY = Some (dateNow env)"
        and g1: "\<And>k. cache_getFilter s1 k = cache_getFilter s k"
        using t0 st0 g0 by (simp_all add: s1_def dm_def request_facts)
      define mds where "mds = filterMetadataListToUpdate env s mdl"
      have mds1: "filterMetadataListToUpdate env s1 mdl = mds"
        unfolding mds_def by (rule filterMetadataListToUpdate_cong) (rule g1)
      have res: "checkAntiBannerFiltersUpdate env force filters s =
                   loadFiltersFromBackendCallback env force cids mds s1"
        by (subst unfold, subst if_not_P [OF nz]) (simp add: m onLoadFilterMetadataList_def mds1)
      have pres: "\<forall>md\<in>set mds. cache_getFilter s1 (filterId md) \<noteq> None"
        by (auto simp: mds_def filterMetadataListToUpdate_eq g1)
      have allok: "(\<forall>md\<in>set mds. cache_getFilter s1 (filterId md) \<noteq> None
               \<and> loadFilterRulesResponse env (filterId md) True \<noteq> RulesFailed) = (\<not> ?failed)"
      proof (cases "ids = []")
        case True
        then show ?thesis by (simp add: mds_def mdl_def)
      next
        case ne: False
        with False obtain l where l: "loadFiltersMetadataResponse env ids = Some l" by auto
        then have "mdl = l" using ne by (simp add: mdl_def)
        then show ?thesis using ne l pres by (auto simp: mds_def simp del: not_None_eq)
      qed
      from loadFiltersFromBackendCallback_result [OF order, of force cids mds s1] obtain d where
        td: "trace (loadFiltersFromBackendCallback env force cids mds s1) = trace s1 @ d"
        and sd: "storage (loadFiltersFromBackendCallback env force cids mds s1) = storage s1"
        and ld: "\<forall>i b. LoadFilterRules i b \<in> set d \<longrightarrow> b \<and> i \<in> filterId ` set mds"
        and pd: "if \<forall>md\<in>set mds. cache_getFilter s1 (filterId md) \<noteq> None
               \<and> loadFilterRulesResponse env (filterId md) True \<noteq> RulesFailed
         then \<exists>ups. filter is_popup d =
                [Notify (UPDATE_FILTERS_SHOW_POPUP
                   \<lparr>success = True, updatedFilters = Some ups, forceUpdate = force,
                    filtersUpdateLastCheck = dateNow env\<rparr>)]
         else filter is_popup d = [?err]"
        by blast
      have fdm: "filter is_popup dm = []" by (simp add: dm_def)
      have 1: "trace (checkAntiBannerFiltersUpdate env force filters s) = trace s @ ?key # (dm @ d)"
        unfolding res using td t1 by simp
      have 2: "storage (checkAntiBannerFiltersUpdate env force filters s)
                 FILTERS_UPDATE_LAST_CHECK_KEY = Some (dateNow env)"
        unfolding res using sd st1 by simp
      have 4: "if ?failed then filter is_popup (dm @ d) = [?err]
         else \<exists>ups. filter is_popup (dm @ d) =
                [Notify (UPDATE_FILTERS_SHOW_POPUP
                   \<lparr>success = True, updatedFilters = Some ups, forceUpdate = force,
                    filtersUpdateLastCheck = dateNow env\<rparr>)]"
        using pd unfolding allok by (simp add: fdm split: if_splits)
      then have 3: "length (filter is_popup (dm @ d)) = 1"
        by (auto simp del: filter_append split: if_splits)
      have 5: "\<forall>i b. LoadFilterRules i b \<in> set (dm @ d) \<longrightarrow>
           b \<and> i \<in> set ids
           \<and> (\<exists>mdl md f v.
                  loadFiltersMetadataResponse env ids = Some mdl
                  \<and> md \<in> set mdl \<and> filterId md = i
                  \<and> cache_getFilter s i = Some f \<and> version md = Some v
                  \<and> v \<noteq> [] \<and> isGreaterVersion env v (version f))"
      proof (intro allI impI)
        fix i b assume "LoadFilterRules i b \<in> set (dm @ d)"
        then have "LoadFilterRules i b \<in> set d" by (auto simp: dm_def split: if_splits)
        with ld have b: b and "i \<in> filterId ` set mds" by blast+
        then obtain md where md: "md \<in> set mds" "filterId md = i" by auto
        then have ne: "ids \<noteq> []" by (auto simp: mds_def mdl_def split: if_splits)
        with False obtain l where l: "loadFiltersMetadataResponse env ids = Some l" by auto
        then have "mdl = l" using ne by (simp add: mdl_def)
        with md l have in_l: "md \<in> set l"
          and gt: "\<exists>f v. cache_getFilter s i = Some f \<and> version md = Some v
                  \<and> v \<noteq> [] \<and> isGreaterVersion env v (version f)"
          by (auto simp: mds_def filterMetadataListToUpdate_eq)
        from requested [OF l] in_l md(2) have sel: "i \<in> set ids" by auto
        from b sel l in_l md(2) gt show "b \<and> i \<in> set ids
           \<and> (\<exists>mdl md f v.
                  loadFiltersMetadataResponse env ids = Some mdl
                  \<and> md \<in> set mdl \<and> filterId md = i
                  \<and> cache_getFilter s i = Some f \<and> version md = Some v
                  \<and> v \<noteq> [] \<and> isGreaterVersion env v (version f))"
          by blast
      qed
      from 1 2 3 4 5 have "?P (dm @ d)" by blast
      then show ?thesis by blast
    qed
  qed
  then show ?thesis unfolding ids_def .
qed

theorem checkAntiBannerFiltersUpdate_reports_once_witness:
  "rulesResponseOrder ex_env = rev
   \<and> customResponseOrder ex_env = rev
   \<and> filterIds (selectFilterIdsToUpdate ex_env True (Some [ex_installed 2]) ex_state) = [2]
   \<and> loadFiltersMetadataResponse ex_env [2] = Some [(ex_filter 2)\<lparr>version := Some ''1.3.0''\<rparr>]
   \<and> filterId ((ex_filter 2)\<lparr>version := Some ''1.3.0''\<rparr>) = 2
   \<and> filterMetadataListToUpdate ex_env ex_state [(ex_filter 2)\<lparr>version := Some ''1.3.0''\<rparr>]
        = [(ex_filter 2)\<lparr>version := Some ''1.3.0''\<rparr>]
   \<and> loadFilterRulesResponse ex_env 2 True = RulesFailed
   \<and> storage (checkAntiBannerFiltersUpdate ex_env True (Some [ex_installed 2]) ex_state)
        FILTERS_UPDATE_LAST_CHECK_KEY = Some (dateNow ex_env)
   \<and> (\<exists>rest. trace (checkAntiBannerFiltersUpdate ex_env True (Some [ex_installed 2]) ex_state)
          = StorageSetItem FILTERS_UPDATE_LAST_CHECK_KEY (dateNow ex_env) # rest
        \<and> filter is_popup rest =
            [Notify (UPDATE_FILTERS_SHOW_POPUP
               \<lparr>success = False, updatedFilters = None, forceUpdate = True,
                filtersUpdateLastCheck = dateNow ex_env\<rparr>)]
        \<and> (\<forall>i b. LoadFilterRules i b \<in> set rest \<longrightarrow> b \<and> i = 2))"
proof -
  let ?md = "(ex_filter 2)\<lparr>version := Some ''1.3.0''\<rparr>"
  let ?sel = "filterIds (selectFilterIdsToUpdate ex_env True (Some [ex_installed 2]) ex_state)"
  have a: "?sel = [2]"
    by (simp add: selectFilterIdsToUpdate_def ex_installed_def ex_filter_def needUpdate_def
        truthy_str_def)
  have b: "loadFiltersMetadataResponse ex_env [2] = Some [?md]"
    by (simp add: ex_env_def)
  have c: "filterMetadataListToUpdate ex_env ex_state [?md] = [?md]"
    by (simp add: cache_getFilter_def ex_state_def ex_filter_def ex_env_def)
  have d: "loadFilterRulesResponse ex_env 2 True = RulesFailed"
    by (simp add: ex_env_def)
  have i: "filterId ?md = 2" by (simp add: ex_filter_def)
  have t: "trace ex_state = []" by (simp add: ex_state_def)
  have o: "rulesResponseOrder ex_env = rev" by (simp add: ex_env_def)
  have oc: "customResponseOrder ex_env = rev" by (simp add: ex_env_def)
  have p: "\<forall>xs. mset (rulesResponseOrder ex_env xs) = mset xs" unfolding o by simp
  have pc: "\<forall>xs. mset (customResponseOrder ex_env xs) = mset xs" unfolding oc by simp
  have q: "\<forall>mdl. loadFiltersMetadataResponse ex_env ?sel = Some mdl
             \<longrightarrow> filterId ` set mdl \<subseteq> set ?sel"
    unfolding a b using i by simp
  from checkAntiBannerFiltersUpdate_reports_once [OF p pc q]
  obtain rest where
    1: "trace (checkAntiBannerFiltersUpdate ex_env True (Some [ex_installed 2]) ex_state) =
       trace ex_state @ StorageSetItem FILTERS_UPDATE_LAST_CHECK_KEY (dateNow ex_env) # rest"
    and 2: "storage (checkAntiBannerFiltersUpdate ex_env True (Some [ex_installed 2]) ex_state)
        FILTERS_UPDATE_LAST_CHECK_KEY = Some (dateNow ex_env)"
    and 3: "if ?sel \<noteq> []
           \<and> (case loadFiltersMetadataResponse ex_env ?sel of
                 None \<Rightarrow> True
               | Some mdl \<Rightarrow>
                   \<exists>md\<in>set (filterMetadataListToUpdate ex_env ex_state mdl).
                      loadFilterRulesResponse ex_env (filterId md) True = RulesFailed)
         then filter is_popup rest =
                [Notify (UPDATE_FILTERS_SHOW_POPUP
                   \<lparr>success = False, updatedFilters = None, forceUpdate = True,
                    filtersUpdateLastCheck = dateNow ex_env\<rparr>)]
         else \<exists>ups. filter is_popup rest =
                [Notify (UPDATE_FILTERS_SHOW_POPUP
                   \<lparr>success = True, updatedFilters = Some ups, forceUpdate = True,
                    filtersUpdateLastCheck = dateNow ex_env\<rparr>)]"
    and 6: "\<forall>i b. LoadFilterRules i b \<in> set rest \<longrightarrow> b \<and> i \<in> set ?sel"
    by blast
  from 3 have 4: "filter is_popup rest =
                [Notify (UPDATE_FILTERS_SHOW_POPUP
                   \<lparr>success = False, updatedFilters = None, forceUpdate = True,
                    filtersUpdateLastCheck = dateNow ex_env\<rparr>)]"
    unfolding a b by (simp add: c d i del: filterMetadataListToUpdate.simps)
  from 1 have 5: "trace (checkAntiBannerFiltersUpdate ex_env True (Some [ex_installed 2]) ex_state) =
       StorageSetItem FILTERS_UPDATE_LAST_CHECK_KEY (dateNow ex_env) # rest"
    by (simp add: t)
  from 6 have 7: "\<forall>i b. LoadFilterRules i b \<in> set rest \<longrightarrow> b \<and> i = 2"
    unfolding a by auto
  from o oc a b i c d 2 4 5 7 show ?thesis by blast
qed

end
